theory Spec2Isabelle
  imports Complex_Main "HOL-Library.Word"
begin

section \<open>Tensors, errors and Python helpers\<close>

text \<open>
  A torch tensor is a shape together with its elements in row-major order.  The code
  tensors of the source have the four dimensions \<open>[n, m, h, w]\<close>, the one-hot
  tensors the five dimensions \<open>[n, m, h, w, k]\<close>; a tensor is well formed when it has
  as many elements as its shape says.  Python
  exceptions are values of \<open>pyError\<close>; a function that may raise returns
  \<open>pyError + 'a\<close>.  Floats are idealised as reals, Python and int64 integers as
  unbounded integers.  The reals have no nan and no infinities: the one place where the
  source divides by zero names the float it gets as a value of \<open>nonFinite\<close>.
\<close>

datatype pyError = RuntimeError | IndexError | ValueError | TypeError

datatype nonFinite = NaN | PosInf | NegInf

record codeTensor =
  cN :: nat
  cM :: nat
  cH :: nat
  cW :: nat
  cFlat :: "int list"

record oneHotTensor =
  oN :: nat
  oM :: nat
  oH :: nat
  oW :: nat
  oK :: nat
  oFlat :: "real list"

type_synonym bytes = "8 word list"

text \<open>\<open>CodeSize(m, heights, widths, k)\<close> of \<open>mcquic.utils.specification\<close>: a plain
  carrier of the four constructor arguments.\<close>

record codeSize =
  cs_m :: nat
  cs_heights :: "nat list"
  cs_widths :: "nat list"
  cs_k :: "nat list"

fun mapE :: "('a \<Rightarrow> 'e + 'b) \<Rightarrow> 'a list \<Rightarrow> 'e + 'b list" where
  "mapE f [] = Inr []"
| "mapE f (x # xs) =
     (case f x of
        Inl e \<Rightarrow> Inl e
      | Inr y \<Rightarrow> (case mapE f xs of Inl e \<Rightarrow> Inl e | Inr ys \<Rightarrow> Inr (y # ys)))"

text \<open>\<open>torch.round\<close> rounds halves to the nearest even integer.\<close>

definition roundHalfEven :: "real \<Rightarrow> int" where
  "roundHalfEven x =
     (let f = \<lfloor>x\<rfloor>; r = x - of_int f
      in if r < 1 / 2 then f
         else if 1 / 2 < r then f + 1
         else if even f then f else f + 1)"

section \<open>The entropy coder (mcquic/modules/entropyCoder.py)\<close>

text \<open>
  The state of an \<open>EntropyCoder\<close> object.  \<open>self.encooder\<close> and \<open>self.decoder\<close>
  are the rANS coder objects of \<open>mcquic.rans\<close>, a compiled extension that is not part
  of the sources: they are kept as the two functions \<open>encodeWithIndexes\<close> and
  \<open>decodeWithIndexes\<close> they provide, with arguments symbols (or the binary), indexes,
  cdfs, cdf sizes and offsets.  \<open>long\<close> is what \<open>Tensor.long()\<close> returns on the
  device of the object for a float that is not finite: torch raises nothing there and
  leaves the integer to the platform, so it is a parameter of the model, like the two
  coders.
\<close>

record entropyCoder =
  self_encooder :: "int list \<Rightarrow> nat list \<Rightarrow> int list list \<Rightarrow> nat list \<Rightarrow> int list \<Rightarrow> bytes"
  self_decoder :: "bytes \<Rightarrow> nat list \<Rightarrow> int list list \<Rightarrow> nat list \<Rightarrow> int list \<Rightarrow> int list"
  self_long :: "nonFinite \<Rightarrow> int"
  self_freqEMA :: "real list list list"
  self_k :: "nat list"
  self_decay :: real
  self_cdfs :: "int list list list option"
  self_freq :: "int list list list option"
  self_needUpdate :: bool

text \<open>\<open>__init__(m, k, ema)\<close>: the histogram starts uniform, all ones.\<close>

definition EntropyCoder_init ::
  "(int list \<Rightarrow> nat list \<Rightarrow> int list list \<Rightarrow> nat list \<Rightarrow> int list \<Rightarrow> bytes) \<Rightarrow>
   (bytes \<Rightarrow> nat list \<Rightarrow> int list list \<Rightarrow> nat list \<Rightarrow> int list \<Rightarrow> int list) \<Rightarrow>
   (nonFinite \<Rightarrow> int) \<Rightarrow> nat \<Rightarrow> nat list \<Rightarrow> real \<Rightarrow> entropyCoder" where
  "EntropyCoder_init enc dec long m k ema =
     \<lparr> self_encooder = enc, self_decoder = dec, self_long = long,
       self_freqEMA = map (\<lambda>ki. replicate m (replicate ki 1)) k,
       self_k = k, self_decay = 1 - ema,
       self_cdfs = None, self_freq = None, self_needUpdate = True \<rparr>"

subsection \<open>\<open>_checkShape\<close>\<close>

text \<open>
  The loop raises at the first level that fails one of its three tests, in the order of
  the source; all three raise RuntimeError.
\<close>

fun checkShapeLoop :: "nat \<Rightarrow> nat \<Rightarrow> codeTensor list \<Rightarrow> pyError + unit" where
  "checkShapeLoop n m [] = Inr ()"
| "checkShapeLoop n m (code # codes) =
     (let newN = cN code; newM = cM code
      in if n < 1 then Inl RuntimeError
         else if m \<noteq> newM then Inl RuntimeError
         else if n \<noteq> newN then Inl RuntimeError
         else checkShapeLoop n m codes)"

definition checkShape :: "codeTensor list \<Rightarrow> pyError + nat \<times> nat" where
  "checkShape codes =
     (if length codes < 1 then Inl RuntimeError
      else
        (let n = cN (codes ! 0); m = cM (codes ! 0)
         in case checkShapeLoop n m codes of
              Inl e \<Rightarrow> Inl e
            | Inr _ \<Rightarrow> Inr (n, m)))"

subsection \<open>\<open>forward\<close>: the EMA update of the histogram\<close>

text \<open>
  \<open>code.sum((0, 2, 3))\<close> of a one-hot tensor \<open>[n, m, h, w, k]\<close>: the \<open>[m, k]\<close>
  matrix of counts, entry \<open>(g, e)\<close> summing the elements at \<open>(i, g, y, x, e)\<close>.
\<close>

definition oneHotAt :: "oneHotTensor \<Rightarrow> nat \<Rightarrow> nat \<Rightarrow> nat \<Rightarrow> nat \<Rightarrow> nat \<Rightarrow> real" where
  "oneHotAt code i g y x e =
     oFlat code ! ((((i * oM code + g) * oH code + y) * oW code + x) * oK code + e)"

definition sumDims :: "oneHotTensor \<Rightarrow> real list list" where
  "sumDims code =
     map (\<lambda>g. map (\<lambda>e.
            (\<Sum>i\<leftarrow>[0..<oN code]. \<Sum>y\<leftarrow>[0..<oH code]. \<Sum>x\<leftarrow>[0..<oW code].
               oneHotAt code i g y x e))
          [0..<oK code]) [0..<oM code]"

text \<open>
  \<open>dist.all_reduce(totalCount)\<close> replaces the local counts by their sum over all
  workers.  The other workers are outside the process: the matrices they contribute to a
  level are an input of the model, and all of them have the shape of the local one (the
  collective is undefined otherwise).
\<close>

definition matAdd :: "real list list \<Rightarrow> real list list \<Rightarrow> real list list" where
  "matAdd a b = map2 (map2 (+)) a b"

definition all_reduce :: "real list list \<Rightarrow> real list list list \<Rightarrow> real list list" where
  "all_reduce totalCount others = foldl matAdd totalCount others"

definition sameShape :: "real list list \<Rightarrow> real list list \<Rightarrow> bool" where
  "sameShape a b = (map length a = map length b)"

definition emaUpdate :: "real \<Rightarrow> real list list \<Rightarrow> real list list \<Rightarrow> real list list" where
  "emaUpdate decay totalCount old =
     map2 (map2 (\<lambda>c p. decay * c + (1 - decay) * p)) totalCount old"

text \<open>
  The loop over \<open>enumerate(oneHotCodes)\<close>.  \<open>self._freqEMA[lv]\<close> raises IndexError
  past the last level.  The blend is elementwise on two \<open>[m, k]\<close> matrices; counts of
  another shape than the histogram are a RuntimeError here (torch would first try to
  broadcast dimensions of size one, which no caller relies on).
\<close>

fun forwardLoop ::
  "real \<Rightarrow> nat \<Rightarrow> (oneHotTensor \<times> real list list list) list \<Rightarrow> real list list list \<Rightarrow>
   pyError + real list list list" where
  "forwardLoop decay lv [] freqEMA = Inr freqEMA"
| "forwardLoop decay lv ((code, others) # rest) freqEMA =
     (let totalCount = all_reduce (sumDims code) others
      in if length freqEMA \<le> lv then Inl IndexError
         else if \<not> sameShape totalCount (freqEMA ! lv) then Inl RuntimeError
         else forwardLoop decay (Suc lv) rest
                (freqEMA[lv := emaUpdate decay totalCount (freqEMA ! lv)]))"

definition forward ::
  "entropyCoder \<Rightarrow> (oneHotTensor \<times> real list list list) list \<Rightarrow> pyError + entropyCoder" where
  "forward s oneHotCodes =
     (case forwardLoop (self_decay s) 0 oneHotCodes (self_freqEMA s) of
        Inl e \<Rightarrow> Inl e
      | Inr freqEMA \<Rightarrow> Inr (s\<lparr>self_freqEMA := freqEMA, self_needUpdate := True\<rparr>))"

subsection \<open>The properties \<open>Freq\<close> and \<open>CDFs\<close>\<close>

text \<open>
  \<open>(freqEMA / freqEMA.sum(-1, keepdim=True) * 65536).round().long()\<close>, one group at a
  time.  A group whose entries sum to zero divides by zero, which raises nothing in float
  arithmetic: an entry 0 becomes nan, a positive entry plus infinity and a negative entry
  minus infinity; the product and \<open>round\<close> keep them, and \<open>long()\<close> turns each into
  the integer of the platform.
\<close>

definition normalizeGroup :: "(nonFinite \<Rightarrow> int) \<Rightarrow> real list \<Rightarrow> int list" where
  "normalizeGroup long row =
     (let total = sum_list row
      in if total = 0
         then map (\<lambda>x. long (if x = 0 then NaN else if 0 < x then PosInf else NegInf)) row
         else map (\<lambda>x. roundHalfEven (x / total * 65536)) row)"

text \<open>Both properties return their value and the object, whose cache they may have set.
  Neither of them resets \<open>needUpdate\<close>, and neither raises: their results are in the
  result type of \<open>compress\<close> and \<open>decompress\<close>, which read them.\<close>

definition Freq :: "entropyCoder \<Rightarrow> pyError + int list list list \<times> entropyCoder" where
  "Freq s =
     (if self_freq s \<noteq> None \<and> \<not> self_needUpdate s then Inr (the (self_freq s), s)
      else
        (let freq = map (map (normalizeGroup (self_long s))) (self_freqEMA s)
         in Inr (freq, s\<lparr>self_freq := Some freq\<rparr>)))"

text \<open>
  Modelled from the spec: \<open>pmfToQuantizedCDF\<close> of the compiled extension
  \<open>mcquic.rans\<close>, which is not part of the sources.  The spec describes its result as
  a monotonically non-decreasing integer array of length K+2 scaled to \<open>2^precision\<close>
  total mass, whose entry i encodes the cumulative probability through symbol i, plus two
  sentinel bounds: the sentinel 0 in front, the K cumulative probabilities scaled by
  \<open>2^precision\<close> and cut to integers, and the sentinel \<open>2^precision\<close> at the end.
\<close>

definition pmfToQuantizedCDF :: "real list \<Rightarrow> nat \<Rightarrow> int list" where
  "pmfToQuantizedCDF pmf precision =
     0 # map (\<lambda>i. \<lfloor>sum_list (take (Suc i) pmf) * 2 ^ precision\<rfloor>) [0..<length pmf]
       @ [2 ^ precision]"

text \<open>The body of the inner loop of \<open>CDFs\<close>: the table of one group.\<close>

definition cdfOfGroup :: "int list \<Rightarrow> int list" where
  "cdfOfGroup freqAtM =
     (let total = sum_list freqAtM;
          prob = (if total < 1
                  then map (\<lambda>_. 1 / real (length freqAtM)) freqAtM
                  else map (\<lambda>f. real_of_int f / real_of_int total) freqAtM)
      in pmfToQuantizedCDF prob 16)"

definition CDFs :: "entropyCoder \<Rightarrow> pyError + int list list list \<times> entropyCoder" where
  "CDFs s =
     (if self_cdfs s \<noteq> None \<and> \<not> self_needUpdate s then Inr (the (self_cdfs s), s)
      else
        (case Freq s of
           Inl e \<Rightarrow> Inl e
         | Inr (freq, s1) \<Rightarrow>
             (let cdfs = map (map cdfOfGroup) freq
              in Inr (cdfs, s1\<lparr>self_cdfs := Some cdfs\<rparr>))))"

text \<open>
  Modelled from the spec: the property \<open>NormalizedFreq\<close> of \<open>EntropyCoder\<close>, which
  \<open>BaseQuantizer.NormalizedFreq\<close> returns and the quantizers hand to
  \<open>reAssignCodebook\<close>, and which \<open>entropyCoder.py\<close> as given does not define.  The
  spec: the tracker exposes normalized frequency, fractions summing to 1 per group; so
  every group of the histogram is divided by its total.  (A group of total zero has no
  fractions: nan in floats.)
\<close>

definition NormalizedFreq :: "entropyCoder \<Rightarrow> real list list list" where
  "NormalizedFreq s = map (map (\<lambda>row. map (\<lambda>x. x / sum_list row) row)) (self_freqEMA s)"

subsection \<open>\<open>compress\<close>\<close>

text \<open>
  \<open>torch.arange(m)[:, None, None]\<close> expanded to \<open>[m, h, w]\<close> and flattened: the
  group of every symbol in row-major (group, height, width) order.
\<close>

definition groupIndexes :: "nat \<Rightarrow> nat \<Rightarrow> nat \<Rightarrow> nat list" where
  "groupIndexes m h w = concat (map (\<lambda>g. replicate (h * w) g) [0..<m])"

text \<open>\<open>codePerImage.flatten()\<close> for the \<open>i\<close>-th slice of a code tensor along its
  first dimension.\<close>

definition codePerImage :: "codeTensor \<Rightarrow> nat \<Rightarrow> int list" where
  "codePerImage code i =
     take (cM code * cH code * cW code) (drop (i * (cM code * cH code * cW code)) (cFlat code))"

text \<open>\<open>compressed[i].append(binary)\<close> for every image \<open>i\<close> of a level.\<close>

definition appendEach :: "'a list list \<Rightarrow> 'a list \<Rightarrow> 'a list list" where
  "appendEach compressed binaries = map2 (\<lambda>l b. l @ [b]) compressed binaries"

text \<open>
  The loop over \<open>zip(codes, self._k, self.CDFs)\<close>, which stops at the shortest of the
  three lists.  \<open>_checkShape\<close> has made the batch size of every level the length of
  \<open>compressed\<close>, so every append finds its list.
\<close>

fun compressLoop ::
  "entropyCoder \<Rightarrow> nat \<Rightarrow> (codeTensor \<times> nat \<times> int list list) list \<Rightarrow>
   bytes list list \<Rightarrow> nat list \<Rightarrow> nat list \<Rightarrow> bytes list list \<times> nat list \<times> nat list" where
  "compressLoop s m [] compressed heights widths = (compressed, heights, widths)"
| "compressLoop s m ((code, ki, cdf) # rest) compressed heights widths =
     (let h = cH code; w = cW code;
          binaries =
            map (\<lambda>i. self_encooder s (codePerImage code i) (groupIndexes m h w) cdf
                        (replicate m (ki + 2)) (replicate (cM code * h * w) 0))
              [0..<cN code]
      in compressLoop s m rest (appendEach compressed binaries) (heights @ [h]) (widths @ [w]))"

definition compress ::
  "entropyCoder \<Rightarrow> codeTensor list \<Rightarrow>
   pyError + (bytes list list \<times> codeSize list) \<times> entropyCoder" where
  "compress s codes =
     (case checkShape codes of
        Inl e \<Rightarrow> Inl e
      | Inr (n, m) \<Rightarrow>
          (case CDFs s of
             Inl e \<Rightarrow> Inl e
           | Inr (cdfs, s1) \<Rightarrow>
               (case compressLoop s1 m (zip codes (zip (self_k s1) cdfs))
                       (replicate n []) [] [] of
                  (compressed, heights, widths) \<Rightarrow>
                    Inr ((compressed,
                          replicate n \<lparr>cs_m = m, cs_heights = heights, cs_widths = widths,
                                       cs_k = self_k s1\<rparr>), s1))))"

subsection \<open>\<open>decompress\<close>\<close>

text \<open>
  \<open>indices.expand(codeSize.m, h, w)\<close> of the \<open>[m, 1, 1]\<close> tensor \<open>indices\<close>: the
  first dimension must already have the target size, or size one (and is then repeated);
  anything else is a RuntimeError.
\<close>

definition expandIndexes :: "nat \<Rightarrow> nat \<Rightarrow> nat \<Rightarrow> nat \<Rightarrow> pyError + nat list" where
  "expandIndexes m m' h w =
     (if m = m' then Inr (groupIndexes m h w)
      else if m = 1 then Inr (replicate (m' * h * w) 0)
      else Inl RuntimeError)"

text \<open>
  The inner loop over \<open>enumerate(zip(binary, self.CDFs, self._k, codeSize.heights,
  codeSize.widths))\<close>.  A decoded level is the \<open>[m, h, w]\<close> tensor of the restored
  symbols (\<open>reshape\<close> raises when there are not \<open>m * h * w\<close> of them), appended to
  \<open>codes[lv]\<close>, which raises IndexError when there is no such list.
\<close>

type_synonym imageCode = "nat \<times> nat \<times> nat \<times> int list"

fun decompressLevels ::
  "entropyCoder \<Rightarrow> nat \<Rightarrow> nat \<Rightarrow> nat \<Rightarrow>
   (bytes \<times> int list list \<times> nat \<times> nat \<times> nat) list \<Rightarrow> imageCode list list \<Rightarrow>
   pyError + imageCode list list" where
  "decompressLevels s m m' lv [] codes = Inr codes"
| "decompressLevels s m m' lv ((binaryAtLv, cdf, ki, h, w) # rest) codes =
     (case expandIndexes m m' h w of
        Inl e \<Rightarrow> Inl e
      | Inr idx \<Rightarrow>
          (let restored = self_decoder s binaryAtLv idx cdf (replicate m' (ki + 2))
                            (replicate (m' * h * w) 0)
           in if length restored \<noteq> m' * h * w then Inl RuntimeError
              else if length codes \<le> lv then Inl IndexError
              else decompressLevels s m m' (Suc lv) rest
                     (codes[lv := codes ! lv @ [(m', h, w, restored)]])))"

text \<open>The outer loop over \<open>zip(binaries, codeSizes)\<close>; \<open>self.CDFs\<close> is read once for
  every image.\<close>

fun decompressImages ::
  "entropyCoder \<Rightarrow> nat \<Rightarrow> (bytes list \<times> codeSize) list \<Rightarrow> imageCode list list \<Rightarrow>
   pyError + imageCode list list \<times> entropyCoder" where
  "decompressImages s m [] codes = Inr (codes, s)"
| "decompressImages s m ((binary, codeSize) # rest) codes =
     (case CDFs s of
        Inl e \<Rightarrow> Inl e
      | Inr (cdfs, s1) \<Rightarrow>
          (case decompressLevels s1 m (cs_m codeSize) 0
                  (zip binary (zip cdfs (zip (self_k s1)
                     (zip (cs_heights codeSize) (cs_widths codeSize))))) codes of
             Inl e \<Rightarrow> Inl e
           | Inr codes1 \<Rightarrow> decompressImages s1 m rest codes1))"

text \<open>\<open>torch.stack(c, 0)\<close>: at least one tensor, all of one shape.\<close>

definition stack :: "imageCode list \<Rightarrow> pyError + codeTensor" where
  "stack c =
     (case c of
        [] \<Rightarrow> Inl RuntimeError
      | (m, h, w, _) # _ \<Rightarrow>
          if \<forall>t \<in> set c. fst t = m \<and> fst (snd t) = h \<and> fst (snd (snd t)) = w
          then Inr \<lparr>cN = length c, cM = m, cH = h, cW = w,
                    cFlat = concat (map (\<lambda>t. snd (snd (snd t))) c)\<rparr>
          else Inl RuntimeError)"

definition decompress ::
  "entropyCoder \<Rightarrow> bytes list list \<Rightarrow> codeSize list \<Rightarrow>
   pyError + codeTensor list \<times> entropyCoder" where
  "decompress s binaries codeSizes =
     (if length binaries < 1 then Inl IndexError
      else if length codeSizes < 1 then Inl IndexError
      else
        (let lv = length (binaries ! 0); m = cs_m (codeSizes ! 0)
         in case decompressImages s m (zip binaries codeSizes) (replicate lv []) of
              Inl e \<Rightarrow> Inl e
            | Inr (codes, s1) \<Rightarrow>
                (case mapE stack codes of
                   Inl e \<Rightarrow> Inl e
                 | Inr out \<Rightarrow> Inr (out, s1))))"

subsection \<open>The contract of the rANS coder\<close>

text \<open>
  Modelled from the spec: \<open>RansEncoder.encodeWithIndexes\<close> and
  \<open>RansDecoder.decodeWithIndexes\<close> of the compiled extension \<open>mcquic.rans\<close>, which
  is not part of the sources.  The spec gives their contract: given a flat sequence of
  symbols, each in \<open>[0, K)\<close> for its group, a parallel sequence of group indices that
  select the CDF of every symbol, the per-group CDF tables, the per-group alphabet sizes
  \<open>K + 2\<close> and zero offsets, the encoder produces a byte string such that decoding with
  the identical index, CDF, size and offset arrays yields exactly the original symbols.
  A CDF table is what the data model of the spec calls a quantized CDF: a non-decreasing
  integer array of the length \<open>K + 2\<close> given as its size, from 0 to \<open>2^16\<close>.
\<close>

text \<open>Modelled from the spec: a quantized CDF of the data model, of a given size.\<close>

definition quantizedCDF :: "nat \<Rightarrow> int list \<Rightarrow> bool" where
  "quantizedCDF cdfSize cdf \<longleftrightarrow>
     length cdf = cdfSize \<and> sorted cdf \<and> hd cdf = 0 \<and> last cdf = 2 ^ 16"

text \<open>Modelled from the spec: the inputs of which the contract speaks.\<close>

definition validCoderInput ::
  "int list \<Rightarrow> nat list \<Rightarrow> int list list \<Rightarrow> nat list \<Rightarrow> int list \<Rightarrow> bool" where
  "validCoderInput symbols indexes cdfs cdfSizes offsets \<longleftrightarrow>
     length indexes = length symbols \<and>
     (\<forall>i < length symbols.
        indexes ! i < length cdfs \<and> indexes ! i < length cdfSizes \<and>
        quantizedCDF (cdfSizes ! (indexes ! i)) (cdfs ! (indexes ! i)) \<and>
        0 \<le> symbols ! i \<and> symbols ! i + 2 < int (cdfSizes ! (indexes ! i))) \<and>
     (\<forall>x \<in> set offsets. x = 0)"

text \<open>Modelled from the spec: decoding what was encoded, with the identical arrays, yields
  the symbols.\<close>

definition losslessCoder ::
  "(int list \<Rightarrow> nat list \<Rightarrow> int list list \<Rightarrow> nat list \<Rightarrow> int list \<Rightarrow> bytes) \<Rightarrow>
   (bytes \<Rightarrow> nat list \<Rightarrow> int list list \<Rightarrow> nat list \<Rightarrow> int list \<Rightarrow> int list) \<Rightarrow> bool" where
  "losslessCoder enc dec \<longleftrightarrow>
     (\<forall>symbols indexes cdfs cdfSizes offsets.
        validCoderInput symbols indexes cdfs cdfSizes offsets \<longrightarrow>
        dec (enc symbols indexes cdfs cdfSizes offsets) indexes cdfs cdfSizes offsets = symbols)"

section \<open>The quantizers (mcquic/modules/quantizer.py)\<close>

text \<open>
  Feature tensors have the four dimensions \<open>[n, c, h, w]\<close>.  A codebook is the nested
  list of its \<open>m\<close> groups of \<open>k\<close> entries of \<open>d\<close> numbers.  The convolutional heads
  are modules of \<open>mcquic.nn\<close> outside the sources: any functions on feature tensors.
\<close>

record featureTensor =
  fN :: nat
  fC :: nat
  fH :: nat
  fW :: nat
  fFlat :: "real list"

definition bindE :: "'e + 'a \<Rightarrow> ('a \<Rightarrow> 'e + 'b) \<Rightarrow> 'e + 'b" where
  "bindE r f = (case r of Inl e \<Rightarrow> Inl e | Inr x \<Rightarrow> f x)"

text \<open>
  Elementwise addition of two feature tensors of one shape.  Tensors of different shapes
  are a RuntimeError here (torch would first broadcast dimensions of size one, which the
  decoders never need: both summands of a level have the shape of its latent).
\<close>

definition tensorAdd :: "featureTensor \<Rightarrow> featureTensor \<Rightarrow> pyError + featureTensor" where
  "tensorAdd a b =
     (if fN a = fN b \<and> fC a = fC b \<and> fH a = fH b \<and> fW a = fW b
      then Inr (a\<lparr>fFlat := map2 (+) (fFlat a) (fFlat b)\<rparr>)
      else Inl RuntimeError)"

subsection \<open>\<open>_multiCodebookDeQuantization.decode\<close>\<close>

text \<open>
  \<open>self._m, self._k, self._d = codebook.shape\<close>, taken when the module is built, and the
  codebook itself.
\<close>

record deQuantization =
  dq_m :: nat
  dq_k :: nat
  dq_d :: nat
  dq_codebook :: "real list list list"

text \<open>Indexing along a dimension of size \<open>k\<close>: negative indices count from the end,
  anything outside \<open>[-k, k)\<close> is an IndexError.\<close>

definition torchIndex :: "nat \<Rightarrow> int \<Rightarrow> pyError + nat" where
  "torchIndex k v =
     (if 0 \<le> v \<and> v < int k then Inr (nat v)
      else if - int k \<le> v \<and> v < 0 then Inr (nat (int k + v))
      else Inl IndexError)"

definition codeAt :: "codeTensor \<Rightarrow> nat \<Rightarrow> nat \<Rightarrow> nat \<Rightarrow> nat \<Rightarrow> int" where
  "codeAt code i g y x = cFlat code ! (((i * cM code + g) * cH code + y) * cW code + x)"

text \<open>
  \<open>decode\<close>: the code is permuted to \<open>[n, h, w, m]\<close>, the group numbers
  \<open>arange(m)\<close> are expanded to its shape (a RuntimeError unless the code has the
  \<open>m\<close> groups of the codebook, or the codebook has one group), the codebook is indexed
  by group and code, and the result \<open>[n, h, w, m, d]\<close> is reshaped to
  \<open>[n, h, w, -1]\<close> (a RuntimeError when \<open>n * h * w = 0\<close> leaves the last dimension
  undetermined) and permuted to \<open>[n, m * d, h, w]\<close>: the element at \<open>(i, g * d + j, y, x)\<close>
  is number \<open>j\<close> of the entry that the code selects in group \<open>g\<close>.
\<close>

definition deQuantization_decode :: "deQuantization \<Rightarrow> codeTensor \<Rightarrow> pyError + featureTensor" where
  "deQuantization_decode dq code =
     (let n = cN code; h = cH code; w = cW code; mc = cM code
      in if dq_m dq \<noteq> mc \<and> dq_m dq \<noteq> 1 then Inl RuntimeError
         else
           bindE (mapE (\<lambda>(i, g, j, y, x).
                     bindE (torchIndex (dq_k dq) (codeAt code i g y x))
                       (\<lambda>e. Inr (dq_codebook dq ! (if dq_m dq = mc then g else 0) ! e ! j)))
                   (concat (map (\<lambda>i. concat (map (\<lambda>g. concat (map (\<lambda>j. concat (map (\<lambda>y.
                      map (\<lambda>x. (i, g, j, y, x)) [0..<w]) [0..<h])) [0..<dq_d dq])) [0..<mc]))
                      [0..<n])))
             (\<lambda>elems. if n * h * w = 0 then Inl RuntimeError
                       else Inr \<lparr>fN = n, fC = mc * dq_d dq, fH = h, fW = w, fFlat = elems\<rparr>))"

subsection \<open>\<open>_quantizerDecoder\<close> and \<open>UMGMQuantizer.decode\<close>\<close>

record quantizerDecoder =
  qd_dequantizer :: deQuantization
  qd_dequantizationHead :: "featureTensor \<Rightarrow> featureTensor"
  qd_sideHead :: "(featureTensor \<Rightarrow> featureTensor) option"
  qd_restoreHead :: "featureTensor \<Rightarrow> featureTensor"

text \<open>\<open>_quantizerDecoder.decode(code, formerLevel)\<close>.  A side head applied to the
  \<open>None\<close> of a missing former level is a TypeError.\<close>

definition quantizerDecoder_decode ::
  "quantizerDecoder \<Rightarrow> codeTensor \<Rightarrow> featureTensor option \<Rightarrow> pyError + featureTensor" where
  "quantizerDecoder_decode dec code formerLevel =
     bindE (deQuantization_decode (qd_dequantizer dec) code)
       (\<lambda>deq.
          let q = qd_dequantizationHead dec deq
          in case qd_sideHead dec of
               Some sideHead \<Rightarrow>
                 (case formerLevel of
                    None \<Rightarrow> Inl TypeError
                  | Some former \<Rightarrow>
                      bindE (tensorAdd q (sideHead former))
                        (\<lambda>xHat. Inr (qd_restoreHead dec xHat)))
             | None \<Rightarrow> Inr (qd_restoreHead dec q))"

text \<open>The loop of \<open>UMGMQuantizer.decode\<close> over
  \<open>zip(self._decoders[::-1], codes[::-1])\<close>, starting with \<open>formerLevel = None\<close>.\<close>

fun UMGM_decodeLoop ::
  "(quantizerDecoder \<times> codeTensor) list \<Rightarrow> featureTensor option \<Rightarrow>
   pyError + featureTensor option" where
  "UMGM_decodeLoop [] formerLevel = Inr formerLevel"
| "UMGM_decodeLoop ((decoder, code) # rest) formerLevel =
     bindE (quantizerDecoder_decode decoder code formerLevel)
       (\<lambda>restored. UMGM_decodeLoop rest (Some restored))"

definition UMGM_decode ::
  "quantizerDecoder list \<Rightarrow> codeTensor list \<Rightarrow> pyError + featureTensor option" where
  "UMGM_decode decoders codes = UMGM_decodeLoop (zip (rev decoders) (rev codes)) None"

subsection \<open>\<open>ResidualBackwardQuantizer.decode\<close>\<close>

text \<open>
  The loop over \<open>zip(self._decoders[::-1], self._dequantizers[::-1], codes)\<close>: the
  modules are taken from the last to the first, the codes in the order of the list, in
  which \<open>encode\<close> has put the code of the last, smallest latent first.
\<close>

fun RB_decodeLoop ::
  "((featureTensor \<Rightarrow> featureTensor) \<times> deQuantization \<times> codeTensor) list \<Rightarrow>
   featureTensor option \<Rightarrow> pyError + featureTensor option" where
  "RB_decodeLoop [] formerLevel = Inr formerLevel"
| "RB_decodeLoop ((decoder, dequantizer, code) # rest) formerLevel =
     bindE (deQuantization_decode dequantizer code)
       (\<lambda>quantized.
          case formerLevel of
            None \<Rightarrow> RB_decodeLoop rest (Some (decoder quantized))
          | Some former \<Rightarrow>
              bindE (tensorAdd quantized former)
                (\<lambda>x. RB_decodeLoop rest (Some (decoder x))))"

definition RB_decode ::
  "(featureTensor \<Rightarrow> featureTensor) list \<Rightarrow> deQuantization list \<Rightarrow> codeTensor list \<Rightarrow>
   pyError + featureTensor option" where
  "RB_decode decoders dequantizers codes =
     RB_decodeLoop (zip (rev decoders) (zip (rev dequantizers) codes)) None"

subsection \<open>\<open>_multiCodebookQuantization.reAssignCodebook\<close>\<close>

text \<open>
  \<open>self._m, self._k, self._d = codebook.shape\<close> and the codebook of a quantization
  module.  (In \<open>UMGMQuantizer\<close> every level has a codebook of its own.)
\<close>

record quantization =
  mq_m :: nat
  mq_k :: nat
  mq_d :: nat
  mq_codebook :: "real list list list"

text \<open>
  The threshold \<open>Consts.Eps\<close> comes from the module \<open>mcquic.consts\<close>, which is not
  part of the sources: it is the parameter \<open>eps\<close>.  \<open>torch.randperm\<close> is random and
  \<open>torch.argsort(..., descending=True)\<close> chooses the order of equal values freely: the
  permutation drawn for a group and the sorting function are parameters too.
\<close>

definition neverAssignedLoc :: "real \<Rightarrow> real list \<Rightarrow> bool list" where
  "neverAssignedLoc eps freqGroup = map (\<lambda>f. f < eps) freqGroup"

definition countTrue :: "bool list \<Rightarrow> nat" where
  "countTrue loc = length (filter (\<lambda>b. b) loc)"

text \<open>\<open>mask = zeros(totalNeverAssigned); mask[perm[k // 2:]] = -1\<close>, for the permutation
  \<open>perm\<close> that \<open>randperm(len(mask))\<close> returns.\<close>

definition dropMask :: "nat \<Rightarrow> nat \<Rightarrow> nat list \<Rightarrow> real list" where
  "dropMask totalNeverAssigned k perm =
     map (\<lambda>j. if j \<in> set (drop (k div 2) perm) then - 1 else 0) [0..<totalNeverAssigned]"

text \<open>\<open>xs[loc] = vals\<close> with a boolean mask: the elements at the marked positions are
  replaced, in order, by the values.\<close>

fun maskedAssign :: "'a list \<Rightarrow> bool list \<Rightarrow> 'a list \<Rightarrow> 'a list" where
  "maskedAssign [] loc vals = []"
| "maskedAssign (x # xs) [] vals = x # xs"
| "maskedAssign (x # xs) (True # loc) [] = x # xs"
| "maskedAssign (x # xs) (True # loc) (v # vals) = v # maskedAssign xs loc vals"
| "maskedAssign (x # xs) (False # loc) vals = x # maskedAssign xs loc vals"

text \<open>
  The first half of the loop body: the usage of the group after the random drop, the
  positions that will be overwritten, and their number.
\<close>

definition reAssignLoc :: "real \<Rightarrow> nat \<Rightarrow> nat list \<Rightarrow> real list \<Rightarrow> real list \<times> bool list \<times> nat" where
  "reAssignLoc eps k perm freqGroup =
     (let neverAssigned = neverAssignedLoc eps freqGroup;
          totalNeverAssigned = countTrue neverAssigned
      in if k div 2 < totalNeverAssigned
         then (let freqGroup1 = maskedAssign freqGroup neverAssigned
                                  (dropMask totalNeverAssigned k perm);
                   neverAssigned1 = map (\<lambda>f. f < eps \<and> - eps < f) freqGroup1
               in (freqGroup1, neverAssigned1, countTrue neverAssigned1))
         else (freqGroup, neverAssigned, totalNeverAssigned))"

text \<open>
  The loop body for one group.  The boolean mask indexes the \<open>k\<close> entries of the group
  and \<open>argIdx\<close> indexes them too: a usage vector of another length than \<open>k\<close> is an
  IndexError.
\<close>

definition reAssignGroup ::
  "real \<Rightarrow> nat \<Rightarrow> nat list \<Rightarrow> (real list \<Rightarrow> nat list) \<Rightarrow> real list list \<Rightarrow> real list \<Rightarrow>
   pyError + real list list" where
  "reAssignGroup eps k perm argsort codebookGroup freqGroup =
     (case reAssignLoc eps k perm freqGroup of
        (freqGroup1, neverAssignedLoc1, totalNeverAssigned) \<Rightarrow>
          (let argIdx = argsort freqGroup1;
               mostAssigned = map (\<lambda>i. codebookGroup ! i) argIdx
           in if length freqGroup \<noteq> k then Inl IndexError
              else Inr (maskedAssign codebookGroup neverAssignedLoc1
                          (take totalNeverAssigned mostAssigned))))"

definition sqDist :: "real list \<Rightarrow> real list \<Rightarrow> real" where
  "sqDist a b = sum_list (map2 (\<lambda>x y. (x - y) ^ 2) a b)"

text \<open>\<open>((codebook - self._codebook) ** 2).sum(-1) > 1e-4\<close> for one entry.\<close>

definition moved :: "real list \<Rightarrow> real list \<Rightarrow> bool" where
  "moved new old \<longleftrightarrow> 1 / 10000 < sqDist new old"

text \<open>
  \<open>reAssignCodebook(freq)\<close>: the loop over \<open>enumerate(zip(self._codebook, freq))\<close>,
  the flattened \<open>[m, k]\<close> matrix of the entries that moved, and the module with the new
  codebook.  \<open>randperm g\<close> is the permutation drawn in group \<open>g\<close>.
\<close>

definition reAssignCodebook ::
  "real \<Rightarrow> (nat \<Rightarrow> nat list) \<Rightarrow> (real list \<Rightarrow> nat list) \<Rightarrow> quantization \<Rightarrow> real list list \<Rightarrow>
   pyError + bool list \<times> quantization" where
  "reAssignCodebook eps randperm argsort q freq =
     bindE (mapE (\<lambda>(g, codebookGroup, freqGroup).
                    reAssignGroup eps (mq_k q) (randperm g) argsort codebookGroup freqGroup)
              (zip [0..<length (mq_codebook q)] (zip (mq_codebook q) freq)))
       (\<lambda>groups.
          let codebook = groups @ drop (length groups) (mq_codebook q);
              diff = map2 (map2 moved) codebook (mq_codebook q)
          in Inr (concat diff, q\<lparr>mq_codebook := codebook\<rparr>))"

subsection \<open>\<open>UMGMQuantizer.reAssignCodebook\<close>\<close>

text \<open>\<open>torch.cat(reassigned).float().mean()\<close>: the share of the flags that are set.\<close>

definition meanFlags :: "bool list \<Rightarrow> real" where
  "meanFlags flags = real (countTrue flags) / real (length flags)"

text \<open>
  The quantizer holds its entropy coder and one quantization module per level (inside
  its encoders).  The loop runs over \<open>zip(self._encoders, self.NormalizedFreq)\<close>;
  \<open>randperm lv g\<close> is the permutation drawn at level \<open>lv\<close> in group \<open>g\<close>.
\<close>

definition UMGM_reAssignCodebook ::
  "real \<Rightarrow> (nat \<Rightarrow> nat \<Rightarrow> nat list) \<Rightarrow> (real list \<Rightarrow> nat list) \<Rightarrow> entropyCoder \<Rightarrow>
   quantization list \<Rightarrow> pyError + real \<times> quantization list" where
  "UMGM_reAssignCodebook eps randperm argsort coder quantizers =
     bindE (mapE (\<lambda>(lv, q, freq). reAssignCodebook eps (randperm lv) argsort q freq)
              (zip [0..<length quantizers] (zip quantizers (NormalizedFreq coder))))
       (\<lambda>results.
          Inr (meanFlags (concat (map fst results)),
               map snd results @ drop (length results) quantizers))"

section \<open>Auxiliary notions for the properties\<close>

text \<open>What \<open>normalizeGroup\<close> returns for a group whose entries do not sum to zero.\<close>

definition normRow :: "real list \<Rightarrow> int list" where
  "normRow row = map (\<lambda>x. roundHalfEven (x / sum_list row * 65536)) row"

text \<open>The value that an integer has in the 64 bits of an \<open>int64\<close> tensor.\<close>

definition wrapInt64 :: "int \<Rightarrow> int" where
  "wrapInt64 x = (x + 2 ^ 63) mod 2 ^ 64 - 2 ^ 63"

text \<open>
  The invariant of a coder in use: the dirty flag is set (the constructor and \<open>forward\<close>
  set it and nothing clears it), the histogram has one matrix per level with rows of
  \<open>k\<close> entries, and every row is non-negative with a positive total.
\<close>

definition coderInv :: "entropyCoder \<Rightarrow> bool" where
  "coderInv s \<longleftrightarrow>
     self_needUpdate s \<and> length (self_freqEMA s) = length (self_k s) \<and>
     (\<forall>lv < length (self_k s). \<forall>row \<in> set (self_freqEMA s ! lv).
        length row = self_k s ! lv \<and> (\<forall>x \<in> set row. 0 \<le> x) \<and> 0 < sum_list row)"

text \<open>The mass of symbol \<open>i\<close> in a table: the gap between two neighbouring entries.\<close>

definition gap :: "int list \<Rightarrow> nat \<Rightarrow> int" where
  "gap cdf i = cdf ! Suc i - cdf ! i"

text \<open>A code tensor is well formed when it has as many elements as its shape says.\<close>

definition wfCode :: "codeTensor \<Rightarrow> bool" where
  "wfCode code \<longleftrightarrow> length (cFlat code) = cN code * cM code * cH code * cW code"

text \<open>The binary of image \<open>i\<close> at one level of the loop of \<open>compress\<close>, the levels that
  \<open>decompress\<close> zips for one image, and the tensor it decodes for one of them.\<close>

definition encodeImage :: "entropyCoder \<Rightarrow> nat \<Rightarrow> codeTensor \<times> nat \<times> int list list \<Rightarrow> nat \<Rightarrow> bytes" where
  "encodeImage s m lvl i =
     (case lvl of (code, ki, cdf) \<Rightarrow>
        self_encooder s (codePerImage code i) (groupIndexes m (cH code) (cW code)) cdf
          (replicate m (ki + 2)) (replicate (cM code * cH code * cW code) 0))"

definition decodeItem ::
  "entropyCoder \<Rightarrow> nat \<Rightarrow> bytes \<times> int list list \<times> nat \<times> nat \<times> nat \<Rightarrow> imageCode" where
  "decodeItem s m item =
     (case item of (binaryAtLv, cdf, ki, h, w) \<Rightarrow>
        (m, h, w, self_decoder s binaryAtLv (groupIndexes m h w) cdf (replicate m (ki + 2))
                    (replicate (m * h * w) 0)))"

definition levelItems ::
  "entropyCoder \<Rightarrow> int list list list \<Rightarrow> bytes list \<times> codeSize \<Rightarrow>
   (bytes \<times> int list list \<times> nat \<times> nat \<times> nat) list" where
  "levelItems s cdfs img =
     zip (fst img) (zip cdfs (zip (self_k s) (zip (cs_heights (snd img)) (cs_widths (snd img)))))"

definition restoredOk :: "entropyCoder \<Rightarrow> nat \<Rightarrow> bytes \<times> int list list \<times> nat \<times> nat \<times> nat \<Rightarrow> bool" where
  "restoredOk s m item \<longleftrightarrow>
     (case decodeItem s m item of (_, h, w, restored) \<Rightarrow> length restored = m * h * w)"

text \<open>
  What \<open>torch.argsort(xs, descending=True)\<close> promises of its result: a permutation of
  the positions of \<open>xs\<close> along which the values do not increase.  \<open>argsortDesc\<close> is
  the sorting function that keeps equal values in the order of their positions.
\<close>

definition validArgsort :: "(real list \<Rightarrow> nat list) \<Rightarrow> bool" where
  "validArgsort argsort \<longleftrightarrow>
     (\<forall>xs. distinct (argsort xs) \<and> set (argsort xs) = {..<length xs} \<and>
           sorted_wrt (\<lambda>i j. xs ! j \<le> xs ! i) (argsort xs))"

definition argsortDesc :: "real list \<Rightarrow> nat list" where
  "argsortDesc xs = sort_key (\<lambda>i. - (xs ! i)) [0..<length xs]"

text \<open>
  A quantization module is well formed when its codebook has the shape \<open>(m, k, d)\<close> it
  records.  \<open>fractionWhere P news olds\<close> is the share of the entries of all levels whose
  new and old embeddings are related by \<open>P\<close>.
\<close>

definition wfQuantization :: "quantization \<Rightarrow> bool" where
  "wfQuantization q \<longleftrightarrow>
     length (mq_codebook q) = mq_m q \<and>
     (\<forall>grp \<in> set (mq_codebook q).
        length grp = mq_k q \<and> (\<forall>entry \<in> set grp. length entry = mq_d q))"

definition entryFlags ::
  "(real list \<Rightarrow> real list \<Rightarrow> bool) \<Rightarrow> real list list list list \<Rightarrow> real list list list list \<Rightarrow>
   bool list" where
  "entryFlags P news olds =
     concat (map2 (\<lambda>new old. concat (map2 (map2 P) new old)) news olds)"

definition fractionWhere ::
  "(real list \<Rightarrow> real list \<Rightarrow> bool) \<Rightarrow> real list list list list \<Rightarrow> real list list list list \<Rightarrow>
   real" where
  "fractionWhere P news olds = meanFlags (entryFlags P news olds)"

text \<open>The rows of one level of the histogram are non-negative with positive totals; an
  update keeps the shape of a level and this property of its rows.\<close>

definition rowsOk :: "real list list \<Rightarrow> bool" where
  "rowsOk lvl \<longleftrightarrow> (\<forall>row \<in> set lvl. (\<forall>x \<in> set row. 0 \<le> x) \<and> 0 < sum_list row)"

definition levelKept :: "real list list \<Rightarrow> real list list \<Rightarrow> bool" where
  "levelKept old new \<longleftrightarrow> map length new = map length old \<and> (rowsOk old \<longrightarrow> rowsOk new)"

section \<open>Example data\<close>

text \<open>A coder of one group and one level of two entries, with \<open>ema = 3/4\<close>, and the
  one-hot tensor of one image of two pixels, the first assigned to entry 0 and the second to
  entry 1.\<close>

definition exCoder :: entropyCoder where
  "exCoder = EntropyCoder_init (\<lambda>_ _ _ _ _. []) (\<lambda>_ _ _ _ _. []) (\<lambda>_. 0) 1 [2] (3 / 4)"

text \<open>The same coder with a histogram whose only group totals \<open>3/10\<close>, and a coder of
  three entries whose only group was never used, on a platform whose \<open>long()\<close> turns
  nan and the infinities into \<open>- 2^63\<close>.\<close>

definition exCoderLow :: entropyCoder where
  "exCoderLow = exCoder\<lparr>self_freqEMA := [[[1 / 10, 1 / 5]]]\<rparr>"

definition exCoderUnused :: entropyCoder where
  "exCoderUnused =
     (EntropyCoder_init (\<lambda>_ _ _ _ _. []) (\<lambda>_ _ _ _ _. []) (\<lambda>_. - (2 ^ 63)) 1 [3] (3 / 4))
       \<lparr>self_freqEMA := [[[0, 0, 0]]]\<rparr>"

definition exOneHot :: oneHotTensor where
  "exOneHot = \<lparr>oN = 1, oM = 1, oH = 1, oW = 2, oK = 2, oFlat = [1, 0, 0, 1]\<rparr>"

text \<open>A quantizer of two levels of one group and one dimension, with 8 entries at level 0
  and 4 at level 1, identity heads, and a code of each level for one image of two pixels.\<close>

definition exDeq0 :: deQuantization where
  "exDeq0 = \<lparr>dq_m = 1, dq_k = 8, dq_d = 1,
             dq_codebook = [[[0], [1], [2], [3], [4], [5], [6], [7]]]\<rparr>"

definition exDeq1 :: deQuantization where
  "exDeq1 = \<lparr>dq_m = 1, dq_k = 4, dq_d = 1, dq_codebook = [[[10], [20], [30], [40]]]\<rparr>"

definition exDec0 :: quantizerDecoder where
  "exDec0 = \<lparr>qd_dequantizer = exDeq0, qd_dequantizationHead = (\<lambda>t. t),
             qd_sideHead = Some (\<lambda>t. t), qd_restoreHead = (\<lambda>t. t)\<rparr>"

definition exDec1 :: quantizerDecoder where
  "exDec1 = \<lparr>qd_dequantizer = exDeq1, qd_dequantizationHead = (\<lambda>t. t),
             qd_sideHead = None, qd_restoreHead = (\<lambda>t. t)\<rparr>"

definition exCode0 :: codeTensor where
  "exCode0 = \<lparr>cN = 1, cM = 1, cH = 1, cW = 2, cFlat = [5, 2]\<rparr>"

definition exCode1 :: codeTensor where
  "exCode1 = \<lparr>cN = 1, cM = 1, cH = 1, cW = 2, cFlat = [3, 0]\<rparr>"

text \<open>
  A coder for the examples, which writes every symbol in unary; it stands for the rANS
  coder only in that it meets the contract.  With it, a coder of two groups and two
  levels of 4 and 2 entries, and the codes of one image: \<open>2 \<times> 2\<close> pixels at level 0,
  using every symbol, and one pixel at level 1.
\<close>

definition exEncode :: "int list \<Rightarrow> nat list \<Rightarrow> int list list \<Rightarrow> nat list \<Rightarrow> int list \<Rightarrow> bytes" where
  "exEncode symbols indexes cdfs cdfSizes offsets =
     concat (map (\<lambda>v. replicate (nat v) (1 :: 8 word) @ [0]) symbols)"

fun exDecodeLoop :: "bytes \<Rightarrow> nat \<Rightarrow> int list" where
  "exDecodeLoop [] acc = []"
| "exDecodeLoop (b # bs) acc =
     (if b = 0 then int acc # exDecodeLoop bs 0 else exDecodeLoop bs (Suc acc))"

definition exDecode :: "bytes \<Rightarrow> nat list \<Rightarrow> int list list \<Rightarrow> nat list \<Rightarrow> int list \<Rightarrow> int list" where
  "exDecode binary indexes cdfs cdfSizes offsets = exDecodeLoop binary 0"

definition exCoder2 :: entropyCoder where
  "exCoder2 = EntropyCoder_init exEncode exDecode (\<lambda>_. 0) 2 [4, 2] (99 / 100)"

definition exCodes :: "codeTensor list" where
  "exCodes = [\<lparr>cN = 1, cM = 2, cH = 2, cW = 2, cFlat = [0, 1, 2, 3, 3, 2, 1, 0]\<rparr>,
              \<lparr>cN = 1, cM = 2, cH = 1, cW = 1, cFlat = [1, 0]\<rparr>]"

text \<open>A group of 8 entries of which six were never assigned, with the threshold
  \<open>10^-6\<close>, a permutation of the six, and a codebook group of one dimension.\<close>

definition exEps :: real where
  "exEps = 1 / 1000000"




text \<open>
  A coder whose first entry has the usage \<open>10^-7\<close>, and a quantization module of one
  group of two entries that lie \<open>10^-3\<close> apart, before and after the reassignment.
\<close>

definition exCoderR :: entropyCoder where
  "exCoderR = exCoder\<lparr>self_freqEMA := [[[1, 9999999]]]\<rparr>"

definition exQuantization :: quantization where
  "exQuantization = \<lparr>mq_m = 1, mq_k = 2, mq_d = 1, mq_codebook = [[[0], [1 / 1000]]]\<rparr>"

definition exQuantization' :: quantization where
  "exQuantization' = \<lparr>mq_m = 1, mq_k = 2, mq_d = 1, mq_codebook = [[[1 / 1000], [1 / 1000]]]\<rparr>"

section \<open>Properties of the entropy coder\<close>

subsection \<open>Shape checks\<close>

lemma checkShapeLoop_eq:
  "checkShapeLoop n m codes =
   (if codes = [] \<or> (1 \<le> n \<and> (\<forall>code \<in> set codes. cN code = n \<and> cM code = m))
    then Inr () else Inl RuntimeError)"
  by (induction codes) (auto simp: Let_def)

lemma checkShape_eq:
  "checkShape codes =
   (if codes \<noteq> [] \<and> 1 \<le> cN (codes ! 0)
       \<and> (\<forall>code \<in> set codes. cN code = cN (codes ! 0) \<and> cM code = cM (codes ! 0))
    then Inr (cN (codes ! 0), cM (codes ! 0)) else Inl RuntimeError)"
  unfolding checkShape_def Let_def checkShapeLoop_eq
  by (cases codes) simp_all

lemma compress_checkShape_error:
  "checkShape codes = Inl e \<Longrightarrow> compress s codes = Inl e"
  unfolding compress_def by (simp only: sum.case)

text \<open>
  Claim C10.  \<open>compress\<close> raises, and so returns no binaries and no headers, whenever
  the list of codes is empty, the batch size of the first level is below one, or some
  level has another batch size or another number of groups than the first level.  The
  error is the RuntimeError of \<open>_checkShape\<close>, raised before any CDF is built or any
  symbol is encoded; nothing in \<open>compress\<close> catches it or tries again.
\<close>

theorem compress_fails_fast:
  assumes "codes = [] \<or> cN (codes ! 0) < 1
           \<or> (\<exists>code \<in> set codes. cN code \<noteq> cN (codes ! 0) \<or> cM code \<noteq> cM (codes ! 0))"
  shows "compress s codes = Inl RuntimeError"
proof -
  have "\<not> (codes \<noteq> [] \<and> 1 \<le> cN (codes ! 0)
       \<and> (\<forall>code \<in> set codes. cN code = cN (codes ! 0) \<and> cM code = cM (codes ! 0)))"
    using assms by auto
  then have "checkShape codes = Inl RuntimeError"
    by (simp only: checkShape_eq if_False)
  then show ?thesis by (rule compress_checkShape_error)
qed

theorem compress_fails_fast_witness:
  "compress (EntropyCoder_init (\<lambda>_ _ _ _ _. []) (\<lambda>_ _ _ _ _. []) (\<lambda>_. 0) 2 [4] (99 / 100))
     [\<lparr>cN = 1, cM = 2, cH = 1, cW = 1, cFlat = [0, 1]\<rparr>,
      \<lparr>cN = 1, cM = 1, cH = 1, cW = 1, cFlat = [3]\<rparr>] = Inl RuntimeError"
  by (rule compress_fails_fast) simp

subsection \<open>The EMA update\<close>

lemma sameShape_nth:
  "sameShape a b \<Longrightarrow> length a = length b \<and> (\<forall>g < length b. length (a ! g) = length (b ! g))"
  unfolding sameShape_def
  by (metis length_map nth_map)

lemma sameShape_refl: "sameShape a a"
  by (simp add: sameShape_def)

lemma sameShape_trans: "sameShape a b \<Longrightarrow> sameShape b c \<Longrightarrow> sameShape a c"
  by (simp add: sameShape_def)

lemma sameShape_sym: "sameShape a b \<Longrightarrow> sameShape b a"
  by (simp add: sameShape_def)

lemma matAdd_sameShape: "sameShape b a \<Longrightarrow> sameShape (matAdd a b) a"
proof -
  assume h: "sameShape b a"
  then have l: "length b = length a" and r: "\<forall>g < length a. length (b ! g) = length (a ! g)"
    using sameShape_nth by blast+
  show ?thesis
    unfolding sameShape_def matAdd_def
    by (rule nth_equalityI) (use l r in auto)
qed

lemma matAdd_nth:
  assumes "sameShape b a" "g < length a" "e < length (a ! g)"
  shows "matAdd a b ! g ! e = a ! g ! e + b ! g ! e"
proof -
  from assms have l: "length b = length a" and r: "length (b ! g) = length (a ! g)"
    using sameShape_nth by blast+
  then show ?thesis using assms by (simp add: matAdd_def)
qed

lemma all_reduce_sameShape:
  "\<forall>r \<in> set others. sameShape r a \<Longrightarrow> sameShape (all_reduce a others) a"
  unfolding all_reduce_def
proof (induction others arbitrary: a)
  case Nil
  then show ?case by (simp add: sameShape_refl)
next
  case (Cons b bs)
  have 1: "sameShape (matAdd a b) a" using Cons.prems by (simp add: matAdd_sameShape)
  have "\<forall>r \<in> set bs. sameShape r (matAdd a b)"
    using Cons.prems 1 by (auto intro: sameShape_trans sameShape_sym)
  then have "sameShape (foldl matAdd (matAdd a b) bs) (matAdd a b)" by (rule Cons.IH)
  with 1 show ?case by (auto intro: sameShape_trans)
qed

lemma all_reduce_nth:
  "\<forall>r \<in> set others. sameShape r a \<Longrightarrow> g < length a \<Longrightarrow> e < length (a ! g) \<Longrightarrow>
   all_reduce a others ! g ! e = a ! g ! e + (\<Sum>r\<leftarrow>others. r ! g ! e)"
  unfolding all_reduce_def
proof (induction others arbitrary: a)
  case Nil
  then show ?case by simp
next
  case (Cons b bs)
  have 1: "sameShape (matAdd a b) a" using Cons.prems by (simp add: matAdd_sameShape)
  have 2: "\<forall>r \<in> set bs. sameShape r (matAdd a b)"
    using Cons.prems 1 by (auto intro: sameShape_trans sameShape_sym)
  have 3: "g < length (matAdd a b)" "e < length (matAdd a b ! g)"
    using 1 Cons.prems sameShape_nth by auto
  have "foldl matAdd (matAdd a b) bs ! g ! e = matAdd a b ! g ! e + (\<Sum>r\<leftarrow>bs. r ! g ! e)"
    using Cons.IH[OF 2 3] .
  also have "matAdd a b ! g ! e = a ! g ! e + b ! g ! e"
    using Cons.prems by (simp add: matAdd_nth)
  finally show ?case by simp
qed

lemma emaUpdate_nth:
  assumes "sameShape t old" "g < length old" "e < length (old ! g)"
  shows "emaUpdate d t old ! g ! e = d * (t ! g ! e) + (1 - d) * (old ! g ! e)"
proof -
  from assms have l: "length t = length old" and r: "length (t ! g) = length (old ! g)"
    using sameShape_nth by blast+
  then show ?thesis using assms by (simp add: emaUpdate_def)
qed

lemma forwardLoop_length:
  "forwardLoop d lv xs ema = Inr ema' \<Longrightarrow> length ema' = length ema"
  by (induction d lv xs ema rule: forwardLoop.induct) (auto simp: Let_def split: if_splits)

lemma forwardLoop_before:
  "forwardLoop d lv xs ema = Inr ema' \<Longrightarrow> i < lv \<Longrightarrow> ema' ! i = ema ! i"
  by (induction d lv xs ema rule: forwardLoop.induct) (auto simp: Let_def split: if_splits)

lemma forwardLoop_nth:
  "forwardLoop d lv xs ema = Inr ema' \<Longrightarrow> j < length xs \<Longrightarrow> xs ! j = (code, others) \<Longrightarrow>
   sameShape (all_reduce (sumDims code) others) (ema ! (lv + j)) \<and>
   ema' ! (lv + j) = emaUpdate d (all_reduce (sumDims code) others) (ema ! (lv + j))"
proof (induction d lv xs ema arbitrary: j rule: forwardLoop.induct)
  case (1 decay lv freqEMA)
  then show ?case by simp
next
  case (2 decay lv c os rest freqEMA)
  let ?t = "all_reduce (sumDims c) os"
  let ?ema1 = "freqEMA[lv := emaUpdate decay ?t (freqEMA ! lv)]"
  from "2.prems"(1) have lvlt: "lv < length freqEMA" and sh: "sameShape ?t (freqEMA ! lv)"
    and rec: "forwardLoop decay (Suc lv) rest ?ema1 = Inr ema'"
    by (auto simp: Let_def split: if_splits)
  show ?case
  proof (cases j)
    case 0
    with "2.prems" have eq: "c = code" "os = others" by simp_all
    have "ema' ! lv = ?ema1 ! lv"
      using forwardLoop_before[OF rec, of lv] by simp
    with lvlt sh eq 0 show ?thesis by simp
  next
    case (Suc j')
    with "2.prems" have j': "j' < length rest" "rest ! j' = (code, others)" by simp_all
    have "sameShape (all_reduce (sumDims code) others) (?ema1 ! (Suc lv + j')) \<and>
      ema' ! (Suc lv + j') = emaUpdate decay (all_reduce (sumDims code) others) (?ema1 ! (Suc lv + j'))"
      using "2.IH"[OF refl _ _ rec j'] sh lvlt by simp
    then show ?thesis using Suc by simp
  qed
qed


lemma sumDims_shape:
  "length (sumDims code) = oM code \<and> (\<forall>g < oM code. length (sumDims code ! g) = oK code)"
  by (simp add: sumDims_def)

text \<open>
  Claim C6.  After a frequency update that succeeds, every entry of every level that
  received a one-hot tensor holds \<open>d * c + (1 - d) * p\<close>: \<open>d\<close> is the decay of the
  coder, \<open>p\<close> the entry before the update, and \<open>c\<close> the count of the entry in the
  local batch plus the counts contributed by the other workers.  The equation holds for
  every \<open>d\<close>, so also for \<open>d = 0\<close>, where it reads \<open>p\<close>, and for \<open>d = 1\<close>,
  where it reads \<open>c\<close>.
\<close>

theorem forward_ema:
  assumes fw: "forward s oneHotCodes = Inr s'"
    and lv: "lv < length oneHotCodes" "oneHotCodes ! lv = (code, others)"
    and others: "\<forall>r \<in> set others. sameShape r (sumDims code)"
    and g: "g < length (self_freqEMA s ! lv)"
    and e: "e < length (self_freqEMA s ! lv ! g)"
  shows "self_freqEMA s' ! lv ! g ! e =
         self_decay s * (sumDims code ! g ! e + (\<Sum>r\<leftarrow>others. r ! g ! e))
         + (1 - self_decay s) * (self_freqEMA s ! lv ! g ! e)"
proof -
  let ?old = "self_freqEMA s ! lv"
  let ?t = "all_reduce (sumDims code) others"
  from fw obtain ema' where loop: "forwardLoop (self_decay s) 0 oneHotCodes (self_freqEMA s) = Inr ema'"
    and s': "self_freqEMA s' = ema'"
    by (auto simp: forward_def split: sum.splits)
  from forwardLoop_nth[OF loop lv] have sh: "sameShape ?t ?old"
    and new: "ema' ! lv = emaUpdate (self_decay s) ?t ?old" by simp_all
  have sh2: "sameShape ?t (sumDims code)" using others by (rule all_reduce_sameShape)
  then have "sameShape ?old (sumDims code)"
    using sh by (auto intro: sameShape_trans sameShape_sym)
  then have g2: "g < length (sumDims code)" and e2: "e < length (sumDims code ! g)"
    using g e sameShape_nth[of "sumDims code" ?old] sameShape_sym by auto
  have "ema' ! lv ! g ! e = self_decay s * (?t ! g ! e) + (1 - self_decay s) * (?old ! g ! e)"
    unfolding new using sh g e by (rule emaUpdate_nth)
  also have "?t ! g ! e = sumDims code ! g ! e + (\<Sum>r\<leftarrow>others. r ! g ! e)"
    using others g2 e2 by (rule all_reduce_nth)
  finally show ?thesis using s' by simp
qed

lemma ex_forward:
  "forward exCoder [(exOneHot, [[[3, 0]]])] = Inr (exCoder\<lparr>self_freqEMA := [[[7 / 4, 1]]]\<rparr>)"
  by (simp add: forward_def exCoder_def EntropyCoder_init_def exOneHot_def all_reduce_def
      sumDims_def oneHotAt_def matAdd_def sameShape_def emaUpdate_def upt_rec
      eval_nat_numeral)

theorem forward_ema_witness:
  "self_freqEMA (exCoder\<lparr>self_freqEMA := [[[7 / 4, 1]]]\<rparr>) ! 0 ! 0 ! 0 =
   self_decay exCoder * (sumDims exOneHot ! 0 ! 0 + (\<Sum>r\<leftarrow>[[[3, 0]]]. r ! 0 ! 0))
   + (1 - self_decay exCoder) * (self_freqEMA exCoder ! 0 ! 0 ! 0)"
  by (rule forward_ema[OF ex_forward])
     (simp_all add: sameShape_def sumDims_def exOneHot_def exCoder_def EntropyCoder_init_def)

subsection \<open>The quantized CDF tables\<close>

lemma normalizeGroup_nonzero: "sum_list row \<noteq> 0 \<Longrightarrow> normalizeGroup long row = normRow row"
  by (simp add: normalizeGroup_def normRow_def)

lemma roundHalfEven_nonneg: "0 \<le> x \<Longrightarrow> 0 \<le> roundHalfEven x"
  by (auto simp: roundHalfEven_def Let_def intro: add_nonneg_nonneg)

lemma normRow_nonneg:
  assumes "\<forall>x \<in> set row. 0 \<le> x" "0 < sum_list row"
  shows "\<forall>f \<in> set (normRow row). 0 \<le> f"
  using assms by (auto simp: normRow_def intro!: roundHalfEven_nonneg)

lemma sum_take_mono:
  "\<forall>x \<in> set (pmf :: real list). 0 \<le> x \<Longrightarrow> i \<le> j \<Longrightarrow> sum_list (take i pmf) \<le> sum_list (take j pmf)"
proof (induction pmf arbitrary: i j)
  case Nil
  then show ?case by simp
next
  case (Cons p ps)
  show ?case
  proof (cases i)
    case 0
    have "\<forall>x \<in> set (take j (p # ps)). 0 \<le> x"
      using Cons.prems(1) by (meson in_set_takeD)
    then have "0 \<le> sum_list (take j (p # ps))" by (simp add: sum_list_nonneg)
    with 0 show ?thesis by simp
  next
    case (Suc i')
    then obtain j' where j: "j = Suc j'" "i' \<le> j'" using Cons.prems(2) by (cases j) auto
    have "sum_list (take i' ps) \<le> sum_list (take j' ps)"
      using Cons.IH[of i' j'] Cons.prems(1) j by simp
    with Suc j show ?thesis by simp
  qed
qed

lemma sum_take_le:
  "\<forall>x \<in> set (pmf :: real list). 0 \<le> x \<Longrightarrow> sum_list (take i pmf) \<le> sum_list pmf"
  using sum_take_mono[of pmf i "length pmf"] 
  by (cases "i \<le> length pmf") simp_all

lemma sorted_map_upt:
  "(\<And>i j. i \<le> j \<Longrightarrow> j < n \<Longrightarrow> F i \<le> (F j :: int)) \<Longrightarrow> sorted (map F [0..<n])"
  by (simp add: sorted_iff_nth_mono)

lemma pmfToQuantizedCDF_length: "length (pmfToQuantizedCDF pmf p) = length pmf + 2"
  by (simp add: pmfToQuantizedCDF_def)

lemma pmfToQuantizedCDF_hd: "hd (pmfToQuantizedCDF pmf p) = 0"
  by (simp add: pmfToQuantizedCDF_def)

lemma pmfToQuantizedCDF_last: "last (pmfToQuantizedCDF pmf p) = 2 ^ p"
  by (simp add: pmfToQuantizedCDF_def)

lemma pmfToQuantizedCDF_sorted:
  assumes nn: "\<forall>x \<in> set pmf. 0 \<le> x" and le1: "sum_list pmf \<le> 1"
  shows "sorted (pmfToQuantizedCDF pmf p)"
proof -
  let ?F = "\<lambda>i. \<lfloor>sum_list (take (Suc i) pmf) * 2 ^ p\<rfloor>"
  have mono: "\<And>i j. i \<le> j \<Longrightarrow> ?F i \<le> ?F j"
    using sum_take_mono[OF nn] by (intro floor_mono mult_right_mono) simp_all
  have lo: "\<And>i. 0 \<le> ?F i"
  proof -
    fix i
    have "0 \<le> sum_list (take (Suc i) pmf)" using sum_take_mono[OF nn, of 0 "Suc i"] by simp
    then show "0 \<le> ?F i" by simp
  qed
  have hi: "\<And>i. ?F i \<le> 2 ^ p"
  proof -
    fix i
    have "sum_list (take (Suc i) pmf) \<le> 1" using sum_take_le[OF nn, of "Suc i"] le1 by simp
    then have "sum_list (take (Suc i) pmf) * 2 ^ p \<le> 1 * 2 ^ p"
      by (intro mult_right_mono) simp_all
    then have "?F i \<le> \<lfloor>(2 ^ p :: real)\<rfloor>" by (intro floor_mono) simp
    also have "\<lfloor>(2 ^ p :: real)\<rfloor> = 2 ^ p" by (metis floor_of_int of_int_numeral of_int_power)
    finally show "?F i \<le> 2 ^ p" .
  qed
  have "sorted (map ?F [0..<length pmf])" using mono by (intro sorted_map_upt) simp
  then show ?thesis
    unfolding pmfToQuantizedCDF_def using lo hi
    by (auto simp: sorted_append)
qed


lemma sum_list_map_const: "sum_list (map (\<lambda>_. c) xs) = real (length xs) * c"
  by (induction xs) (simp_all add: algebra_simps)

lemma sum_list_map_divide:
  "sum_list (map (\<lambda>f. real_of_int f / t) fr) = real_of_int (sum_list fr) / t"
  by (induction fr) (simp_all add: add_divide_distrib)

lemma cdfOfGroup_sorted:
  assumes nn: "\<forall>f \<in> set fr. 0 \<le> f"
  shows "sorted (cdfOfGroup fr)"
proof (cases "sum_list fr < 1")
  case True
  let ?pmf = "map (\<lambda>_. 1 / real (length fr)) fr"
  have 1: "\<forall>x \<in> set ?pmf. 0 \<le> x" by simp
  have 2: "sum_list ?pmf \<le> 1" by (simp add: sum_list_map_const)
  from True show ?thesis
    using pmfToQuantizedCDF_sorted[OF 1 2] by (simp add: cdfOfGroup_def)
next
  case False
  let ?t = "real_of_int (sum_list fr)"
  let ?pmf = "map (\<lambda>f. real_of_int f / ?t) fr"
  from False have t: "0 < ?t" by simp
  have 1: "\<forall>x \<in> set ?pmf. 0 \<le> x" using nn t by auto
  have 2: "sum_list ?pmf \<le> 1" using t by (simp add: sum_list_map_divide)
  from False show ?thesis
    using pmfToQuantizedCDF_sorted[OF 1 2] by (simp add: cdfOfGroup_def)
qed

lemma cdfOfGroup_length: "length (cdfOfGroup fr) = length fr + 2"
  by (simp add: cdfOfGroup_def pmfToQuantizedCDF_length Let_def)

lemma cdfOfGroup_hd: "hd (cdfOfGroup fr) = 0"
  by (simp add: cdfOfGroup_def pmfToQuantizedCDF_hd Let_def)

lemma cdfOfGroup_last: "last (cdfOfGroup fr) = 65536"
  by (simp add: cdfOfGroup_def pmfToQuantizedCDF_last Let_def)

lemma Freq_rebuild:
  assumes nu: "self_needUpdate s"
    and nz: "\<And>lvl row. lvl \<in> set (self_freqEMA s) \<Longrightarrow> row \<in> set lvl \<Longrightarrow> sum_list row \<noteq> 0"
  shows "Freq s = Inr (map (map normRow) (self_freqEMA s),
                       s\<lparr>self_freq := Some (map (map normRow) (self_freqEMA s))\<rparr>)"
proof -
  have "map (map (normalizeGroup (self_long s))) (self_freqEMA s) =
        map (map normRow) (self_freqEMA s)"
    by (intro map_cong refl normalizeGroup_nonzero nz)
  then show ?thesis using nu by (simp add: Freq_def Let_def)
qed

lemma CDFs_rebuild:
  assumes nu: "self_needUpdate s"
    and nz: "\<And>lvl row. lvl \<in> set (self_freqEMA s) \<Longrightarrow> row \<in> set lvl \<Longrightarrow> sum_list row \<noteq> 0"
  shows "CDFs s = Inr (map (map (\<lambda>row. cdfOfGroup (normRow row))) (self_freqEMA s),
                       s\<lparr>self_freq := Some (map (map normRow) (self_freqEMA s)),
                         self_cdfs := Some (map (map (\<lambda>row. cdfOfGroup (normRow row))) (self_freqEMA s))\<rparr>)"
  using nu by (simp add: CDFs_def Freq_rebuild[OF nu nz] Let_def comp_def)

lemma coderInv_nonzero:
  assumes "coderInv s" "lvl \<in> set (self_freqEMA s)" "row \<in> set lvl"
  shows "sum_list row \<noteq> 0"
proof -
  from assms(2) obtain lv where "lv < length (self_freqEMA s)" "lvl = self_freqEMA s ! lv"
    by (auto simp: in_set_conv_nth)
  with assms(1,3) have "0 < sum_list row" by (auto simp: coderInv_def)
  then show ?thesis by simp
qed

text \<open>
  Claim C2.  For a coder that satisfies its invariant, reading \<open>CDFs\<close> succeeds, and
  the table of every group \<open>g\<close> of every level \<open>lv\<close> is a non-decreasing list of
  integers of length \<open>K + 2\<close>, \<open>K\<close> the alphabet size of the level, that starts with 0
  and ends with \<open>2^16 = 65536\<close>.
\<close>

theorem CDFs_valid:
  assumes inv: "coderInv s"
    and lv: "lv < length (self_k s)" and g: "g < length (self_freqEMA s ! lv)"
  shows "\<exists>cdfs s'. CDFs s = Inr (cdfs, s') \<and>
           sorted (cdfs ! lv ! g) \<and> length (cdfs ! lv ! g) = self_k s ! lv + 2 \<and>
           hd (cdfs ! lv ! g) = 0 \<and> last (cdfs ! lv ! g) = 65536"
proof -
  let ?row = "self_freqEMA s ! lv ! g"
  let ?cdfs = "map (map (\<lambda>row. cdfOfGroup (normRow row))) (self_freqEMA s)"
  from inv have nu: "self_needUpdate s" by (simp add: coderInv_def)
  have eq: "CDFs s = Inr (?cdfs, s\<lparr>self_freq := Some (map (map normRow) (self_freqEMA s)),
                         self_cdfs := Some ?cdfs\<rparr>)"
    by (rule CDFs_rebuild[OF nu]) (rule coderInv_nonzero[OF inv])
  from inv lv have len: "lv < length (self_freqEMA s)" by (simp add: coderInv_def)
  from g have "?row \<in> set (self_freqEMA s ! lv)" by simp
  with inv lv have row: "length ?row = self_k s ! lv" "\<forall>x \<in> set ?row. 0 \<le> x" "0 < sum_list ?row"
    by (auto simp: coderInv_def)
  have at: "?cdfs ! lv ! g = cdfOfGroup (normRow ?row)" using len g by simp
  have "sorted (cdfOfGroup (normRow ?row))"
    by (rule cdfOfGroup_sorted) (rule normRow_nonneg[OF row(2,3)])
  moreover have "length (cdfOfGroup (normRow ?row)) = self_k s ! lv + 2"
    using row(1) by (simp add: cdfOfGroup_length normRow_def)
  ultimately show ?thesis
    unfolding eq at[symmetric] using at cdfOfGroup_hd cdfOfGroup_last by auto
qed

lemma init_coderInv:
  assumes "\<forall>ki \<in> set k. 1 \<le> ki"
  shows "coderInv (EntropyCoder_init enc dec long m k ema)"
proof -
  have "\<And>lv. lv < length k \<Longrightarrow> 0 < k ! lv"
    using assms by (metis Suc_le_eq One_nat_def nth_mem)
  then show ?thesis
    by (auto simp: coderInv_def EntropyCoder_init_def sum_list_replicate)
qed

lemma ex_coderInv: "coderInv exCoder"
  unfolding exCoder_def by (rule init_coderInv) simp

theorem CDFs_valid_witness:
  "\<exists>cdfs s'. CDFs exCoder = Inr (cdfs, s') \<and>
           sorted (cdfs ! 0 ! 0) \<and> length (cdfs ! 0 ! 0) = self_k exCoder ! 0 + 2 \<and>
           hd (cdfs ! 0 ! 0) = 0 \<and> last (cdfs ! 0 ! 0) = 65536"
  by (rule CDFs_valid[OF ex_coderInv]) (simp_all add: exCoder_def EntropyCoder_init_def)

subsection \<open>The uniform fallback\<close>

lemma sum_take_replicate: "sum_list (take j (replicate K (c::real))) = real (min j K) * c"
  by (simp add: sum_list_replicate)

lemma pmf_uniform_nth:
  assumes "i \<le> K"
  shows "pmfToQuantizedCDF (replicate K c) p ! i = \<lfloor>real i * c * 2 ^ p\<rfloor>"
proof (cases i)
  case 0
  then show ?thesis by (simp add: pmfToQuantizedCDF_def)
next
  case (Suc j)
  with assms have j: "j < K" by simp
  have "pmfToQuantizedCDF (replicate K c) p ! i =
        (map (\<lambda>i. \<lfloor>sum_list (take (Suc i) (replicate K c)) * 2 ^ p\<rfloor>) [0..<K] @ [2 ^ p]) ! j"
    using Suc by (simp add: pmfToQuantizedCDF_def)
  also have "\<dots> = \<lfloor>sum_list (take (Suc j) (replicate K c)) * 2 ^ p\<rfloor>"
    using j by (simp add: nth_append)
  also have "sum_list (take (Suc j) (replicate K c)) = real (Suc j) * c"
    using j by (simp add: sum_list_replicate min_def algebra_simps)
  finally show ?thesis using Suc by simp
qed

lemma floor_step:
  fixes a x :: real
  shows "\<lfloor>x\<rfloor> \<le> \<lfloor>a + x\<rfloor> - \<lfloor>a\<rfloor> \<and> \<lfloor>a + x\<rfloor> - \<lfloor>a\<rfloor> \<le> \<lfloor>x\<rfloor> + 1"
  by (simp add: floor_add) 

lemma uniform_gap:
  assumes "i < K"
  shows "\<lfloor>c * 2 ^ p\<rfloor> \<le> gap (pmfToQuantizedCDF (replicate K c) p) i \<and>
         gap (pmfToQuantizedCDF (replicate K c) p) i \<le> \<lfloor>c * 2 ^ p\<rfloor> + 1"
proof -
  have a: "pmfToQuantizedCDF (replicate K c) p ! i = \<lfloor>real i * c * 2 ^ p\<rfloor>"
    using assms by (intro pmf_uniform_nth) simp
  have b: "pmfToQuantizedCDF (replicate K c) p ! Suc i = \<lfloor>real i * c * 2 ^ p + c * 2 ^ p\<rfloor>"
    using assms pmf_uniform_nth[of "Suc i" K c p] by (simp add: algebra_simps)
  show ?thesis unfolding gap_def a b by (rule floor_step)
qed

lemma cdfOfGroup_uniform:
  assumes "sum_list freqAtM < 1"
  shows "cdfOfGroup freqAtM =
         pmfToQuantizedCDF (replicate (length freqAtM) (1 / real (length freqAtM))) 16"
  using assms by (simp add: cdfOfGroup_def map_replicate_const)

lemma uniform_gaps_close:
  assumes "i < K" "j < K"
  shows "\<bar>gap (pmfToQuantizedCDF (replicate K c) p) i
          - gap (pmfToQuantizedCDF (replicate K c) p) j\<bar> \<le> 1"
  using uniform_gap[OF assms(1), of c p] uniform_gap[OF assms(2), of c p] by linarith

text \<open>A group of \<open>K\<close> equal frequencies gets the uniform table, on either branch of the
  test \<open>total < 1\<close>.\<close>

lemma cdfOfGroup_replicate:
  "cdfOfGroup (replicate K c) = pmfToQuantizedCDF (replicate K (1 / real K)) 16"
proof (cases "sum_list (replicate K c) < 1")
  case True
  from cdfOfGroup_uniform[OF True] show ?thesis by simp
next
  case False
  then have pos: "1 \<le> int K * c" by (simp add: sum_list_replicate)
  have "K \<noteq> 0" using pos by (intro notI) simp
  moreover have "c \<noteq> 0" using pos by (intro notI) simp
  ultimately have "real_of_int c / (real K * real_of_int c) = 1 / real K" by simp
  with False show ?thesis
    by (simp add: cdfOfGroup_def sum_list_replicate map_replicate_const)
qed

text \<open>A group of non-negative counts that was never used has only zeros, each of which
  the division turns into nan.\<close>

lemma normalizeGroup_unused:
  assumes nonneg: "\<forall>x \<in> set row. 0 \<le> x" and zero: "sum_list row = 0"
  shows "normalizeGroup long row = replicate (length row) (long NaN)"
proof -
  have "\<forall>x \<in> set row. x = 0"
    using nonneg zero by (simp add: sum_list_nonneg_eq_0_iff)
  then have "map (\<lambda>x. long (if x = 0 then NaN else if 0 < x then PosInf else NegInf)) row =
             map (\<lambda>_. long NaN) row"
    by (intro map_cong) simp_all
  then show ?thesis using zero by (simp add: normalizeGroup_def map_replicate_const)
qed

text \<open>
  The model adds the frequencies of a group in unbounded integers.  For a group that was
  never used this loses nothing where \<open>long()\<close> turns nan into \<open>- 2^63\<close> or into 0:
  the total of the \<open>K\<close> copies is below 1 in 64 bits too, so that the source takes the
  branch of the uniform distribution there.
\<close>

lemma total_unused_wraps:
  assumes "c = 0 \<or> c = - (2 ^ 63)"
  shows "wrapInt64 (sum_list (replicate K c)) < 1"
proof -
  from assms show ?thesis
  proof
    assume "c = 0"
    then show ?thesis by (simp add: wrapInt64_def sum_list_replicate)
  next
    assume c: "c = - (2 ^ 63)"
    have "sum_list (replicate K c) + 2 ^ 63 = (1 - int K) * 2 ^ 63"
      by (simp add: c sum_list_replicate algebra_simps)
    moreover have "((1 - int K) * 2 ^ 63) mod (2 * 2 ^ 63) = ((1 - int K) mod 2) * (2 ^ 63 :: int)"
      by (rule mod_mult_mult2)
    moreover have "(1 - int K) mod 2 \<le> 1" by simp
    ultimately have "(sum_list (replicate K c) + 2 ^ 63) mod 2 ^ 64 \<le> 1 * 2 ^ 63"
      by (simp add: mult_right_mono)
    then show ?thesis by (simp add: wrapInt64_def)
  qed
qed

lemma Freq_dirty:
  "self_needUpdate s \<Longrightarrow>
   Freq s = Inr (map (map (normalizeGroup (self_long s))) (self_freqEMA s),
                 s\<lparr>self_freq := Some (map (map (normalizeGroup (self_long s))) (self_freqEMA s))\<rparr>)"
  by (simp add: Freq_def Let_def)

lemma CDFs_of_dirty:
  assumes "self_needUpdate s"
  shows "\<exists>s'. CDFs s =
           Inr (map (map (\<lambda>row. cdfOfGroup (normalizeGroup (self_long s) row))) (self_freqEMA s), s')"
  using assms by (simp add: CDFs_def Freq_dirty Let_def comp_def)

text \<open>
  Claim C5.  The claim is that every group whose histogram total is less than 1 gets the
  uniform distribution.  \<open>CDFs\<close> applies the test \<open>total < 1\<close> to the rows of
  \<open>Freq\<close>, which are the histogram rows after their normalisation to 16 bits, so a
  histogram row with a positive total below 1 is normalised like any other: the coder
  \<open>exCoderLow\<close> meets the invariant, its group \<open>[1/10, 1/5]\<close> totals \<open>3/10\<close>, and
  its table gives the two symbols the masses 21845 and 43691.
\<close>

theorem uniform_fallback_counterexample:
  "coderInv exCoderLow \<and>
   sum_list (self_freqEMA exCoderLow ! 0 ! 0) < 1 \<and>
   CDFs exCoderLow =
     Inr ([[[0, 21845, 65536, 65536]]],
          exCoderLow\<lparr>self_freq := Some [[[21845, 43691]]],
                      self_cdfs := Some [[[0, 21845, 65536, 65536]]]\<rparr>) \<and>
   gap [0, 21845, 65536, 65536] 0 = 21845 \<and>
   gap [0, 21845, 65536, 65536] 1 = 43691"
proof -
  have inv: "coderInv exCoderLow"
    by (simp add: coderInv_def exCoderLow_def exCoder_def EntropyCoder_init_def)
  have tot: "sum_list (self_freqEMA exCoderLow ! 0 ! 0) < 1"
    by (simp add: exCoderLow_def)
  have r0: "roundHalfEven (65536 / 3) = 21845"
    by (simp add: roundHalfEven_def Let_def)
  have r1: "roundHalfEven (131072 / 3) = 43691"
    by (simp add: roundHalfEven_def Let_def)
  have n: "normalizeGroup (self_long exCoderLow) [1 / 10, 1 / 5] = [21845, 43691]"
    using r0 r1 by (simp add: normalizeGroup_def)
  have f: "Freq exCoderLow = Inr ([[[21845, 43691]]], exCoderLow\<lparr>self_freq := Some [[[21845, 43691]]]\<rparr>)"
    using n by (simp add: Freq_def Let_def exCoderLow_def exCoder_def EntropyCoder_init_def)
  have c: "cdfOfGroup [21845, 43691] = [0, 21845, 65536, 65536]"
    by (simp add: cdfOfGroup_def pmfToQuantizedCDF_def upt_rec)
  have cd: "CDFs exCoderLow =
     Inr ([[[0, 21845, 65536, 65536]]],
          exCoderLow\<lparr>self_freq := Some [[[21845, 43691]]],
                      self_cdfs := Some [[[0, 21845, 65536, 65536]]]\<rparr>)"
    using f c by (simp add: CDFs_def Let_def exCoderLow_def exCoder_def EntropyCoder_init_def)
  have g: "gap [0, 21845, 65536, 65536] 0 = 21845" "gap [0, 21845, 65536, 65536] 1 = 43691"
    by (simp_all add: gap_def)
  from inv tot cd g show ?thesis by simp
qed

text \<open>
  Claim C5, amended.  What holds is the case of zero total usage.  When a group of
  non-negative counts totals zero, \<open>Freq\<close> divides by zero without raising, and whatever
  integer \<open>long()\<close> makes of nan, \<open>CDFs\<close> raises nothing and hands the uniform
  distribution \<open>1/K\<close> over the \<open>K\<close> symbols of the group to the quantizer; in the
  table of the group the masses of any two symbols differ by at most one.  The coder is one
  whose dirty flag is set, as the constructor and \<open>forward\<close> leave it.
\<close>

theorem zero_usage_uniform:
  assumes nu: "self_needUpdate s"
    and lv: "lv < length (self_freqEMA s)"
    and g: "g < length (self_freqEMA s ! lv)"
    and nonneg: "\<forall>x \<in> set (self_freqEMA s ! lv ! g). 0 \<le> x"
    and zero: "sum_list (self_freqEMA s ! lv ! g) = 0"
  shows "\<exists>cdfs s'. CDFs s = Inr (cdfs, s') \<and>
           cdfs ! lv ! g =
             pmfToQuantizedCDF (replicate (length (self_freqEMA s ! lv ! g))
                                  (1 / real (length (self_freqEMA s ! lv ! g)))) 16 \<and>
           (\<forall>i < length (self_freqEMA s ! lv ! g). \<forall>j < length (self_freqEMA s ! lv ! g).
              \<bar>gap (cdfs ! lv ! g) i - gap (cdfs ! lv ! g) j\<bar> \<le> 1)"
proof -
  let ?row = "self_freqEMA s ! lv ! g"
  let ?K = "length ?row"
  let ?cdfs = "map (map (\<lambda>row. cdfOfGroup (normalizeGroup (self_long s) row))) (self_freqEMA s)"
  from CDFs_of_dirty[OF nu] obtain s' where cd: "CDFs s = Inr (?cdfs, s')" by blast
  have "?cdfs ! lv ! g = cdfOfGroup (normalizeGroup (self_long s) ?row)"
    using lv g by simp
  also have "\<dots> = cdfOfGroup (replicate ?K (self_long s NaN))"
    by (simp only: normalizeGroup_unused[OF nonneg zero])
  also have "\<dots> = pmfToQuantizedCDF (replicate ?K (1 / real ?K)) 16"
    by (rule cdfOfGroup_replicate)
  finally have eq: "?cdfs ! lv ! g = pmfToQuantizedCDF (replicate ?K (1 / real ?K)) 16" .
  have "\<forall>i < ?K. \<forall>j < ?K. \<bar>gap (?cdfs ! lv ! g) i - gap (?cdfs ! lv ! g) j\<bar> \<le> 1"
    unfolding eq by (intro allI impI uniform_gaps_close)
  with cd eq show ?thesis by blast
qed

theorem zero_usage_uniform_witness:
  "\<exists>cdfs s'. CDFs exCoderUnused = Inr (cdfs, s') \<and>
     cdfs ! 0 ! 0 = [0, 21845, 43690, 65536, 65536] \<and>
     \<bar>gap (cdfs ! 0 ! 0) 0 - gap (cdfs ! 0 ! 0) 2\<bar> \<le> 1"
proof -
  have row: "self_freqEMA exCoderUnused ! 0 ! 0 = [0, 0, 0]"
    by (simp add: exCoderUnused_def)
  have "self_needUpdate exCoderUnused"
    and "0 < length (self_freqEMA exCoderUnused)"
    and "0 < length (self_freqEMA exCoderUnused ! 0)"
    and "\<forall>x \<in> set (self_freqEMA exCoderUnused ! 0 ! 0). 0 \<le> x"
    and "sum_list (self_freqEMA exCoderUnused ! 0 ! 0) = 0"
    by (simp_all add: exCoderUnused_def EntropyCoder_init_def)
  from zero_usage_uniform[OF this] obtain cdfs s' where
    cd: "CDFs exCoderUnused = Inr (cdfs, s')"
    and eq: "cdfs ! 0 ! 0 = pmfToQuantizedCDF (replicate (length [0, 0, 0 :: real])
                              (1 / real (length [0, 0, 0 :: real]))) 16"
    and gaps: "\<forall>i < length [0, 0, 0 :: real]. \<forall>j < length [0, 0, 0 :: real].
                 \<bar>gap (cdfs ! 0 ! 0) i - gap (cdfs ! 0 ! 0) j\<bar> \<le> 1"
    unfolding row by blast
  have tab: "pmfToQuantizedCDF (replicate (length [0, 0, 0 :: real])
               (1 / real (length [0, 0, 0 :: real]))) 16 = [0, 21845, 43690, 65536, 65536]"
    by (simp add: pmfToQuantizedCDF_def upt_rec eval_nat_numeral)
  have "(0::nat) < length [0, 0, 0 :: real]" "(2::nat) < length [0, 0, 0 :: real]"
    by simp_all
  with gaps have "\<bar>gap (cdfs ! 0 ! 0) 0 - gap (cdfs ! 0 ! 0) 2\<bar> \<le> 1" by blast
  with cd eq tab show ?thesis by auto
qed

subsection \<open>Normalized frequency\<close>

lemma sum_list_map_div: "sum_list (map (\<lambda>x. x / (t::real)) row) = sum_list row / t"
  by (induction row) (simp_all add: add_divide_distrib)

lemma member_le_sum_list_real:
  "\<forall>x \<in> set (row :: real list). 0 \<le> x \<Longrightarrow> y \<in> set row \<Longrightarrow> y \<le> sum_list row"
proof (induction row)
  case Nil
  then show ?case by simp
next
  case (Cons a row)
  have "0 \<le> sum_list row" using Cons.prems(1) by (simp add: sum_list_nonneg)
  then show ?case using Cons by auto
qed

text \<open>
  Claim C4.  For a coder that satisfies its invariant, the normalized frequency of every
  group of every level is a vector of \<open>K\<close> fractions between 0 and 1 that sums to 1.
\<close>

theorem NormalizedFreq_sums_to_one:
  assumes inv: "coderInv s"
    and lv: "lv < length (self_k s)" and g: "g < length (self_freqEMA s ! lv)"
  shows "sum_list (NormalizedFreq s ! lv ! g) = 1 \<and>
         length (NormalizedFreq s ! lv ! g) = self_k s ! lv \<and>
         (\<forall>x \<in> set (NormalizedFreq s ! lv ! g). 0 \<le> x \<and> x \<le> 1)"
proof -
  let ?row = "self_freqEMA s ! lv ! g"
  from inv lv have len: "lv < length (self_freqEMA s)" by (simp add: coderInv_def)
  from g have "?row \<in> set (self_freqEMA s ! lv)" by simp
  with inv lv have row: "length ?row = self_k s ! lv" "\<forall>x \<in> set ?row. 0 \<le> x" "0 < sum_list ?row"
    by (auto simp: coderInv_def)
  have at: "NormalizedFreq s ! lv ! g = map (\<lambda>x. x / sum_list ?row) ?row"
    using len g by (simp add: NormalizedFreq_def)
  have 1: "sum_list (map (\<lambda>x. x / sum_list ?row) ?row) = 1"
    using row(3) by (simp add: sum_list_map_div)
  have 2: "0 \<le> x / sum_list ?row \<and> x / sum_list ?row \<le> 1" if "x \<in> set ?row" for x
    using that row(2,3) member_le_sum_list_real[OF row(2) that] by simp
  show ?thesis unfolding at using 1 2 row(1) by auto
qed

theorem NormalizedFreq_sums_to_one_witness:
  "sum_list (NormalizedFreq exCoder ! 0 ! 0) = 1 \<and>
   length (NormalizedFreq exCoder ! 0 ! 0) = self_k exCoder ! 0 \<and>
   0 \<le> NormalizedFreq exCoder ! 0 ! 0 ! 1 \<and> NormalizedFreq exCoder ! 0 ! 0 ! 1 \<le> 1"
proof -
  have lv: "0 < length (self_k exCoder)" and g: "0 < length (self_freqEMA exCoder ! 0)"
    by (simp_all add: exCoder_def EntropyCoder_init_def)
  note t = NormalizedFreq_sums_to_one[OF ex_coderInv lv g]
  have "length (NormalizedFreq exCoder ! 0 ! 0) = 2"
    using t by (simp add: exCoder_def EntropyCoder_init_def)
  then have "NormalizedFreq exCoder ! 0 ! 0 ! 1 \<in> set (NormalizedFreq exCoder ! 0 ! 0)"
    by simp
  with t show ?thesis by blast
qed


text \<open>
  \<open>Freq\<close>, the property that \<open>entropyCoder.py\<close> does define, is the same vector at a
  precision of 16 bits: every entry is within one half of \<open>65536\<close> times the fraction.
\<close>

lemma roundHalfEven_close: "\<bar>real_of_int (roundHalfEven x) - x\<bar> \<le> 1 / 2"
proof -
  have "real_of_int \<lfloor>x\<rfloor> \<le> x" "x < real_of_int \<lfloor>x\<rfloor> + 1" by linarith+
  then show ?thesis by (auto simp: roundHalfEven_def Let_def)
qed

lemma Freq_close_to_NormalizedFreq:
  assumes inv: "coderInv s"
    and lv: "lv < length (self_k s)" and g: "g < length (self_freqEMA s ! lv)"
    and e: "e < length (self_freqEMA s ! lv ! g)"
  shows "\<exists>freq s1. Freq s = Inr (freq, s1) \<and>
           \<bar>real_of_int (freq ! lv ! g ! e) - 65536 * (NormalizedFreq s ! lv ! g ! e)\<bar> \<le> 1 / 2"
proof -
  from inv have nu: "self_needUpdate s" by (simp add: coderInv_def)
  from inv lv have len: "lv < length (self_freqEMA s)" by (simp add: coderInv_def)
  let ?row = "self_freqEMA s ! lv ! g"
  have fr: "Freq s = Inr (map (map normRow) (self_freqEMA s),
                          s\<lparr>self_freq := Some (map (map normRow) (self_freqEMA s))\<rparr>)"
    by (rule Freq_rebuild[OF nu]) (rule coderInv_nonzero[OF inv])
  have a: "map (map normRow) (self_freqEMA s) ! lv ! g ! e =
           roundHalfEven (?row ! e / sum_list ?row * 65536)"
    using len g e by (simp add: normRow_def)
  have b: "NormalizedFreq s ! lv ! g ! e = ?row ! e / sum_list ?row"
    using len g e by (simp add: NormalizedFreq_def)
  have "\<bar>real_of_int (roundHalfEven (?row ! e / sum_list ?row * 65536))
          - ?row ! e / sum_list ?row * 65536\<bar> \<le> 1 / 2"
    by (rule roundHalfEven_close)
  then show ?thesis unfolding fr using a b by (simp add: mult.commute)
qed

subsection \<open>The dirty flag\<close>

lemma Freq_needUpdate: "Freq s = Inr (f, s1) \<Longrightarrow> self_needUpdate s1 = self_needUpdate s"
  by (auto simp: Freq_def Let_def split: if_splits)

lemma CDFs_needUpdate: "CDFs s = Inr (c, s1) \<Longrightarrow> self_needUpdate s1 = self_needUpdate s"
  by (auto simp: CDFs_def Let_def split: if_splits sum.splits dest: Freq_needUpdate)

lemma forward_needUpdate: "forward s xs = Inr s1 \<Longrightarrow> self_needUpdate s1"
  by (auto simp: forward_def split: sum.splits)

lemma init_needUpdate: "self_needUpdate (EntropyCoder_init enc dec long m k ema)"
  by (simp add: EntropyCoder_init_def)

lemma CDFs_dirty:
  "self_needUpdate s \<Longrightarrow>
   CDFs s = (case Freq s of Inl e \<Rightarrow> Inl e
             | Inr (freq, s1) \<Rightarrow>
                 Inr (map (map cdfOfGroup) freq, s1\<lparr>self_cdfs := Some (map (map cdfOfGroup) freq)\<rparr>))"
  by (simp add: CDFs_def Let_def split: sum.splits)

lemma ex_CDFs:
  "CDFs exCoder = Inr ([[[0, 32768, 65536, 65536]]],
     exCoder\<lparr>self_freq := Some [[[32768, 32768]]], self_cdfs := Some [[[0, 32768, 65536, 65536]]]\<rparr>)"
proof -
  have f: "Freq exCoder = Inr ([[[32768, 32768]]], exCoder\<lparr>self_freq := Some [[[32768, 32768]]]\<rparr>)"
    by (simp add: Freq_def Let_def exCoder_def EntropyCoder_init_def normalizeGroup_def
        roundHalfEven_def eval_nat_numeral)
  have c: "cdfOfGroup [32768, 32768] = [0, 32768, 65536, 65536]"
    by (simp add: cdfOfGroup_def pmfToQuantizedCDF_def upt_rec)
  have "self_needUpdate exCoder" by (simp add: exCoder_def EntropyCoder_init_def)
  then show ?thesis by (simp add: CDFs_dirty f c)
qed

text \<open>
  Claim C3.  The claim is that a second read of \<open>CDFs\<close> with no update in between
  returns the cached tables without rebuilding them.  The early return of \<open>CDFs\<close> needs
  \<open>self.cdfs is not None and not self.needUpdate\<close>, but nothing ever clears
  \<open>needUpdate\<close>: the constructor and \<open>forward\<close> set it, \<open>Freq\<close> and \<open>CDFs\<close>
  leave it as it is.  On a fresh coder the first read stores the tables and leaves the
  flag set, so the guard of the cached return is false at the second read, which rebuilds.
\<close>

theorem CDFs_cache_never_clean:
  "CDFs exCoder = Inr ([[[0, 32768, 65536, 65536]]],
     exCoder\<lparr>self_freq := Some [[[32768, 32768]]], self_cdfs := Some [[[0, 32768, 65536, 65536]]]\<rparr>)
   \<and> \<not> (self_cdfs (exCoder\<lparr>self_freq := Some [[[32768, 32768]]],
                         self_cdfs := Some [[[0, 32768, 65536, 65536]]]\<rparr>) \<noteq> None
          \<and> \<not> self_needUpdate (exCoder\<lparr>self_freq := Some [[[32768, 32768]]],
                         self_cdfs := Some [[[0, 32768, 65536, 65536]]]\<rparr>))"
  using ex_CDFs by (simp add: exCoder_def EntropyCoder_init_def)

subsection \<open>The round trip of \<open>compress\<close> and \<open>decompress\<close>\<close>

lemma appendEach_nth:
  "length bs = length cs \<Longrightarrow>
   appendEach cs bs = map (\<lambda>i. cs ! i @ [bs ! i]) [0..<length cs]"
  by (auto simp: appendEach_def intro!: nth_equalityI)

lemma compressLoop_eq:
  "\<forall>lvl \<in> set lvls. cN (fst lvl) = length compressed \<Longrightarrow>
   compressLoop s m lvls compressed heights widths =
     (map (\<lambda>i. compressed ! i @ map (\<lambda>lvl. encodeImage s m lvl i) lvls) [0..<length compressed],
      heights @ map (\<lambda>lvl. cH (fst lvl)) lvls, widths @ map (\<lambda>lvl. cW (fst lvl)) lvls)"
proof (induction lvls arbitrary: compressed heights widths)
  case Nil
  then show ?case by (simp add: map_nth)
next
  case (Cons lvl lvls)
  obtain code ki cdf where lvl: "lvl = (code, ki, cdf)" by (cases lvl) auto
  let ?bins = "map (\<lambda>i. encodeImage s m lvl i) [0..<cN code]"
  have n: "cN code = length compressed" using Cons.prems lvl by simp
  have ae: "appendEach compressed ?bins =
            map (\<lambda>i. compressed ! i @ [encodeImage s m lvl i]) [0..<length compressed]"
    using n by (simp add: appendEach_nth)
  let ?c1 = "appendEach compressed ?bins"
  have len1: "length ?c1 = length compressed" by (simp add: ae)
  have prem1: "\<forall>l \<in> set lvls. cN (fst l) = length ?c1" using Cons.prems len1 by simp
  have step: "compressLoop s m (lvl # lvls) compressed heights widths =
              compressLoop s m lvls ?c1 (heights @ [cH code]) (widths @ [cW code])"
    by (simp add: lvl encodeImage_def Let_def)
  have nth1: "\<And>i. i < length compressed \<Longrightarrow>
              ?c1 ! i = compressed ! i @ [encodeImage s m lvl i]"
    by (simp add: ae)
  have "map (\<lambda>i. ?c1 ! i @ map (\<lambda>lvl. encodeImage s m lvl i) lvls) [0..<length compressed] =
        map (\<lambda>i. compressed ! i @ map (\<lambda>lvl. encodeImage s m lvl i) (lvl # lvls))
          [0..<length compressed]"
    by (rule map_cong) (simp_all add: nth1)
  then show ?case
    unfolding step Cons.IH[OF prem1] len1
    by (simp add: lvl)
qed


lemma expandIndexes_same: "expandIndexes m m h w = Inr (groupIndexes m h w)"
  by (simp add: expandIndexes_def)

lemma decompressLevels_eq:
  "lv + length items \<le> length acc \<Longrightarrow> \<forall>item \<in> set items. restoredOk s m item \<Longrightarrow>
   decompressLevels s m m lv items acc =
     Inr (map (\<lambda>j. if lv \<le> j \<and> j < lv + length items
                     then acc ! j @ [decodeItem s m (items ! (j - lv))] else acc ! j)
            [0..<length acc])"
proof (induction items arbitrary: lv acc)
  case Nil
  have "map (\<lambda>j. if lv \<le> j \<and> j < lv + length ([] :: (bytes \<times> int list list \<times> nat \<times> nat \<times> nat) list)
                     then acc ! j @ [decodeItem s m ([] ! (j - lv))] else acc ! j)
            [0..<length acc] = map (\<lambda>j. acc ! j) [0..<length acc]"
    by (rule map_cong) simp_all
  then show ?case by (simp add: map_nth)
next
  case (Cons item items)
  obtain b cdf ki h w where item: "item = (b, cdf, ki, h, w)" by (cases item) auto
  let ?restored = "self_decoder s b (groupIndexes m h w) cdf (replicate m (ki + 2))
                     (replicate (m * h * w) 0)"
  have di: "decodeItem s m item = (m, h, w, ?restored)" by (simp add: decodeItem_def item)
  have ok: "length ?restored = m * h * w"
    using Cons.prems(2) by (simp add: restoredOk_def di)
  have lv: "lv < length acc" using Cons.prems(1) by simp
  let ?acc1 = "acc[lv := acc ! lv @ [decodeItem s m item]]"
  have step: "decompressLevels s m m lv (item # items) acc =
              decompressLevels s m m (Suc lv) items ?acc1"
    using ok lv by (simp add: item expandIndexes_same Let_def decodeItem_def)
  have p1: "Suc lv + length items \<le> length ?acc1" using Cons.prems(1) by simp
  have p2: "\<forall>item \<in> set items. restoredOk s m item" using Cons.prems(2) by simp
  have "map (\<lambda>j. if Suc lv \<le> j \<and> j < Suc lv + length items
                     then ?acc1 ! j @ [decodeItem s m (items ! (j - Suc lv))] else ?acc1 ! j)
            [0..<length ?acc1] =
        map (\<lambda>j. if lv \<le> j \<and> j < lv + length (item # items)
                     then acc ! j @ [decodeItem s m ((item # items) ! (j - lv))] else acc ! j)
            [0..<length acc]"
  proof (rule nth_equalityI)
    show "length (map (\<lambda>j. if Suc lv \<le> j \<and> j < Suc lv + length items
                     then ?acc1 ! j @ [decodeItem s m (items ! (j - Suc lv))] else ?acc1 ! j)
            [0..<length ?acc1]) =
          length (map (\<lambda>j. if lv \<le> j \<and> j < lv + length (item # items)
                     then acc ! j @ [decodeItem s m ((item # items) ! (j - lv))] else acc ! j)
            [0..<length acc])" by simp
  next
    fix j
    assume "j < length (map (\<lambda>j. if Suc lv \<le> j \<and> j < Suc lv + length items
                     then ?acc1 ! j @ [decodeItem s m (items ! (j - Suc lv))] else ?acc1 ! j)
            [0..<length ?acc1])"
    then have j: "j < length acc" by simp
    consider "j < lv" | "j = lv" | "lv < j"
      by linarith
    then show "map (\<lambda>j. if Suc lv \<le> j \<and> j < Suc lv + length items
                     then ?acc1 ! j @ [decodeItem s m (items ! (j - Suc lv))] else ?acc1 ! j)
            [0..<length ?acc1] ! j =
          map (\<lambda>j. if lv \<le> j \<and> j < lv + length (item # items)
                     then acc ! j @ [decodeItem s m ((item # items) ! (j - lv))] else acc ! j)
            [0..<length acc] ! j"
    proof cases
      case 1
      then show ?thesis using j by simp
    next
      case 2
      then show ?thesis using j by simp
    next
      case 3
      then have "(item # items) ! (j - lv) = items ! (j - Suc lv)"
        by (simp add: nth_Cons')
      then show ?thesis using j 3 by auto
    qed
  qed
  then show ?case unfolding step Cons.IH[OF p1 p2] by simp
qed

lemma decompressImages_eq:
  assumes cd: "CDFs s1 = Inr (cdfs, s1)"
  shows "\<forall>img \<in> set imgs. cs_m (snd img) = m \<and> length (levelItems s1 cdfs img) = L \<and>
            (\<forall>item \<in> set (levelItems s1 cdfs img). restoredOk s1 m item) \<Longrightarrow>
         length acc = L \<Longrightarrow>
         decompressImages s1 m imgs acc =
           Inr (map (\<lambda>j. acc ! j @ map (\<lambda>img. decodeItem s1 m (levelItems s1 cdfs img ! j)) imgs)
                  [0..<L], s1)"
proof (induction imgs arbitrary: acc)
  case Nil
  then show ?case by (auto simp: map_nth)
next
  case (Cons img imgs)
  obtain binary codeSize where img: "img = (binary, codeSize)" by (cases img) auto
  let ?items = "levelItems s1 cdfs img"
  have m: "cs_m codeSize = m" and len: "length ?items = L"
    and ok: "\<forall>item \<in> set ?items. restoredOk s1 m item"
    using Cons.prems(1) img by auto
  have "0 + length ?items \<le> length acc" using len Cons.prems(2) by simp
  from decompressLevels_eq[OF this ok]
  have lev: "decompressLevels s1 m m 0 ?items acc =
             Inr (map (\<lambda>j. acc ! j @ [decodeItem s1 m (?items ! j)]) [0..<L])"
    using len Cons.prems(2) by (simp cong: map_cong)
  let ?acc1 = "map (\<lambda>j. acc ! j @ [decodeItem s1 m (?items ! j)]) [0..<L]"
  have step: "decompressImages s1 m (img # imgs) acc = decompressImages s1 m imgs ?acc1"
    using lev by (simp add: img cd m levelItems_def)
  have p1: "\<forall>img \<in> set imgs. cs_m (snd img) = m \<and> length (levelItems s1 cdfs img) = L \<and>
            (\<forall>item \<in> set (levelItems s1 cdfs img). restoredOk s1 m item)"
    using Cons.prems(1) by simp
  have p2: "length ?acc1 = L" by simp
  show ?case unfolding step Cons.IH[OF p1 p2]
    by (simp cong: map_cong)
qed


lemma mapE_map_Inr:
  "(\<And>x. x \<in> set xs \<Longrightarrow> f (F x) = Inr (G x)) \<Longrightarrow> mapE f (map F xs) = Inr (map G xs)"
  by (induction xs) simp_all

lemma concat_slices_take:
  "concat (map (\<lambda>i. take c (drop (i * c) xs)) [0..<n]) = take (n * c) xs"
proof (induction n)
  case 0
  then show ?case by simp
next
  case (Suc n)
  have "take (n * c) xs @ take c (drop (n * c) xs) = take (n * c + c) xs"
    by (simp add: take_add)
  with Suc show ?case by (simp add: add.commute)
qed

lemma concat_codePerImage:
  assumes "wfCode code"
  shows "concat (map (codePerImage code) [0..<cN code]) = cFlat code"
proof -
  let ?c = "cM code * cH code * cW code"
  have "concat (map (\<lambda>i. take ?c (drop (i * ?c) (cFlat code))) [0..<cN code]) =
        take (cN code * ?c) (cFlat code)"
    by (rule concat_slices_take)
  moreover have "length (cFlat code) = cN code * ?c"
    using assms by (simp add: wfCode_def mult.assoc)
  ultimately show ?thesis by (simp add: codePerImage_def[abs_def])
qed

lemma length_codePerImage:
  assumes "wfCode code" "i < cN code"
  shows "length (codePerImage code i) = cM code * cH code * cW code"
proof -
  let ?c = "cM code * cH code * cW code"
  have len: "length (cFlat code) = cN code * ?c"
    using assms(1) by (simp add: wfCode_def mult.assoc)
  have "Suc i * ?c \<le> cN code * ?c" using assms(2) by (intro mult_le_mono1) simp
  then have "i * ?c + ?c \<le> length (cFlat code)" using len by simp
  then show ?thesis by (simp add: codePerImage_def)
qed

lemma set_codePerImage: "set (codePerImage code i) \<subseteq> set (cFlat code)"
  unfolding codePerImage_def
  by (meson set_take_subset set_drop_subset subset_trans)

lemma length_groupIndexes: "length (groupIndexes m h w) = m * h * w"
  by (induction m) (simp_all add: groupIndexes_def algebra_simps)

lemma set_groupIndexes: "g \<in> set (groupIndexes m h w) \<Longrightarrow> g < m"
  by (auto simp: groupIndexes_def)

lemma coder_roundtrip_image:
  assumes lossless: "losslessCoder enc dec"
    and wf: "wfCode code" and i: "i < cN code"
    and cdf: "cM code \<le> length cdf"
    and tables: "\<forall>g < cM code. quantizedCDF (ki + 2) (cdf ! g)"
    and range: "\<forall>v \<in> set (cFlat code). 0 \<le> v \<and> v < int ki"
  shows "dec (enc (codePerImage code i) (groupIndexes (cM code) (cH code) (cW code)) cdf
                 (replicate (cM code) (ki + 2)) (replicate (cM code * cH code * cW code) 0))
              (groupIndexes (cM code) (cH code) (cW code)) cdf
              (replicate (cM code) (ki + 2)) (replicate (cM code * cH code * cW code) 0) =
         codePerImage code i"
proof -
  let ?sym = "codePerImage code i"
  let ?idx = "groupIndexes (cM code) (cH code) (cW code)"
  have len: "length ?idx = length ?sym"
    using wf i by (simp add: length_groupIndexes length_codePerImage)
  have "validCoderInput ?sym ?idx cdf (replicate (cM code) (ki + 2))
          (replicate (cM code * cH code * cW code) 0)"
    unfolding validCoderInput_def
  proof (intro conjI allI impI)
    show "length ?idx = length ?sym" by (rule len)
  next
    fix p assume p: "p < length ?sym"
    then have "?idx ! p \<in> set ?idx" using len by simp
    then have g: "?idx ! p < cM code" by (rule set_groupIndexes)
    have "?sym ! p \<in> set (cFlat code)" using p set_codePerImage nth_mem by blast
    then have v: "0 \<le> ?sym ! p" "?sym ! p < int ki" using range by auto
    show "?idx ! p < length cdf" using g cdf by simp
    show "?idx ! p < length (replicate (cM code) (ki + 2))" using g by simp
    show "quantizedCDF (replicate (cM code) (ki + 2) ! (?idx ! p)) (cdf ! (?idx ! p))"
      using g tables by simp
    show "0 \<le> ?sym ! p" by (rule v(1))
    show "?sym ! p + 2 < int (replicate (cM code) (ki + 2) ! (?idx ! p))"
      using g v(2) by simp
  next
    show "\<forall>x \<in> set (replicate (cM code * cH code * cW code) (0::int)). x = 0" by simp
  qed
  with lossless show ?thesis unfolding losslessCoder_def by blast
qed

lemma stack_images:
  assumes "wfCode code" "1 \<le> cN code"
  shows "stack (map (\<lambda>i. (cM code, cH code, cW code, codePerImage code i)) [0..<cN code]) = Inr code"
proof -
  obtain n' where n': "cN code = Suc n'" using assms(2) by (cases "cN code") auto
  have up: "[0..<Suc n'] = 0 # [Suc 0..<Suc n']" by (simp add: upt_rec)
  have cc: "concat (map (codePerImage code) [0..<cN code]) = cFlat code"
    using assms(1) by (rule concat_codePerImage)
  have "stack (map (\<lambda>i. (cM code, cH code, cW code, codePerImage code i)) [0..<cN code]) =
        Inr \<lparr>cN = cN code, cM = cM code, cH = cH code, cW = cW code,
             cFlat = concat (map (codePerImage code) [0..<cN code])\<rparr>"
    unfolding stack_def n' up by (simp add: comp_def)
  then show ?thesis by (simp add: cc)
qed


lemma CDFs_stable:
  assumes inv: "coderInv s"
  defines "cdfs \<equiv> map (map (\<lambda>row. cdfOfGroup (normRow row))) (self_freqEMA s)"
  defines "s1 \<equiv> s\<lparr>self_freq := Some (map (map normRow) (self_freqEMA s)), self_cdfs := Some cdfs\<rparr>"
  shows "CDFs s = Inr (cdfs, s1)" and "CDFs s1 = Inr (cdfs, s1)"
proof -
  from inv have nu: "self_needUpdate s" by (simp add: coderInv_def)
  show "CDFs s = Inr (cdfs, s1)"
    unfolding cdfs_def s1_def by (rule CDFs_rebuild[OF nu]) (rule coderInv_nonzero[OF inv])
  have nu1: "self_needUpdate s1" using nu by (simp add: s1_def)
  have ema1: "self_freqEMA s1 = self_freqEMA s" by (simp add: s1_def)
  have nz1: "\<And>lvl row. lvl \<in> set (self_freqEMA s1) \<Longrightarrow> row \<in> set lvl \<Longrightarrow> sum_list row \<noteq> 0"
    unfolding ema1 by (rule coderInv_nonzero[OF inv])
  have same: "s1\<lparr>self_freq := Some (map (map normRow) (self_freqEMA s1)),
                 self_cdfs := Some (map (map (\<lambda>row. cdfOfGroup (normRow row))) (self_freqEMA s1))\<rparr> = s1"
    by (simp add: s1_def cdfs_def)
  show "CDFs s1 = Inr (cdfs, s1)"
    using CDFs_rebuild[OF nu1 nz1] unfolding same by (simp add: ema1 cdfs_def)
qed

text \<open>
  Claim C1.  Let the rANS coder meet its contract and the coder object satisfy its
  invariant, with \<open>m\<close> groups at every level (so that, by the lemmas on \<open>CDFs\<close>, the
  tables it hands to the coder are quantized CDFs).  For every non-empty list of well-formed
  code tensors, one per level, all of batch size \<open>n \<ge> 1\<close> and \<open>m\<close> groups, with every
  value of level \<open>lv\<close> in \<open>[0, K_lv)\<close>, \<open>compress\<close> succeeds, and \<open>decompress\<close>
  of the binaries and headers it returns, on the coder as \<open>compress\<close> leaves it, returns
  exactly the code tensors.  Nothing is asked of the heights, widths and alphabet sizes:
  \<open>h = w = 1\<close> and \<open>K = 1\<close> are included.
\<close>

theorem compress_decompress_roundtrip:
  assumes lossless: "losslessCoder (self_encooder s) (self_decoder s)"
    and inv: "coderInv s"
    and groups: "\<forall>lvl \<in> set (self_freqEMA s). length lvl = m"
    and ne: "codes \<noteq> []"
    and levels: "length codes = length (self_k s)"
    and shapes: "\<forall>code \<in> set codes. wfCode code \<and> cN code = n \<and> cM code = m"
    and n: "1 \<le> n"
    and range: "\<forall>lv < length codes. \<forall>v \<in> set (cFlat (codes ! lv)).
                  0 \<le> v \<and> v < int (self_k s ! lv)"
  shows "\<exists>binaries codeSizes s1.
           compress s codes = Inr ((binaries, codeSizes), s1) \<and>
           decompress s1 binaries codeSizes = Inr (codes, s1)"
proof -
  define L where "L = length codes"
  define cdfs where "cdfs = map (map (\<lambda>row. cdfOfGroup (normRow row))) (self_freqEMA s)"
  define s1 where
    "s1 = s\<lparr>self_freq := Some (map (map normRow) (self_freqEMA s)), self_cdfs := Some cdfs\<rparr>"
  define lvls where "lvls = zip codes (zip (self_k s) cdfs)"
  define B where "B = (\<lambda>i. map (\<lambda>lvl. encodeImage s1 m lvl i) lvls)"
  define cs where
    "cs = \<lparr>cs_m = m, cs_heights = map cH codes, cs_widths = map cW codes, cs_k = self_k s\<rparr>"
  have cd: "CDFs s = Inr (cdfs, s1)" and cd1: "CDFs s1 = Inr (cdfs, s1)"
    using CDFs_stable[OF inv] unfolding cdfs_def s1_def by simp_all
  have k1: "self_k s1 = self_k s" and enc1: "self_encooder s1 = self_encooder s"
    and dec1: "self_decoder s1 = self_decoder s"
    by (simp_all add: s1_def)
  have lenk: "length (self_k s) = L" using levels by (simp add: L_def)
  have lencdfs: "length cdfs = L" using inv lenk by (simp add: cdfs_def coderInv_def)
  have lenlvls: "length lvls = L" by (simp add: lvls_def lenk lencdfs L_def)
  have lvl_nth: "\<And>j. j < L \<Longrightarrow> lvls ! j = (codes ! j, self_k s ! j, cdfs ! j)"
    by (simp add: lvls_def lenk lencdfs L_def)
  have code: "\<And>j. j < L \<Longrightarrow> wfCode (codes ! j) \<and> cN (codes ! j) = n \<and> cM (codes ! j) = m"
    using shapes by (simp add: L_def)
  have cdfm: "\<And>j. j < L \<Longrightarrow> length (cdfs ! j) = m"
  proof -
    fix j assume j: "j < L"
    then have "j < length (self_freqEMA s)" using lencdfs by (simp add: cdfs_def)
    then show "length (cdfs ! j) = m" using groups by (simp add: cdfs_def)
  qed
  have cdftab: "\<And>j g. j < L \<Longrightarrow> g < m \<Longrightarrow> quantizedCDF (self_k s ! j + 2) (cdfs ! j ! g)"
  proof -
    fix j g assume j: "j < L" and g: "g < m"
    have jk: "j < length (self_k s)" and je: "j < length (self_freqEMA s)"
      using j lenk lencdfs by (simp_all add: cdfs_def)
    have gl: "g < length (self_freqEMA s ! j)" using groups je g by simp
    let ?row = "self_freqEMA s ! j ! g"
    have "?row \<in> set (self_freqEMA s ! j)" using gl by simp
    with inv jk have row: "length ?row = self_k s ! j" "\<forall>x \<in> set ?row. 0 \<le> x" "0 < sum_list ?row"
      by (auto simp: coderInv_def)
    have at: "cdfs ! j ! g = cdfOfGroup (normRow ?row)" using je gl by (simp add: cdfs_def)
    have "sorted (cdfOfGroup (normRow ?row))"
      by (rule cdfOfGroup_sorted) (rule normRow_nonneg[OF row(2,3)])
    moreover have "length (cdfOfGroup (normRow ?row)) = self_k s ! j + 2"
      using row(1) by (simp add: cdfOfGroup_length normRow_def)
    ultimately show "quantizedCDF (self_k s ! j + 2) (cdfs ! j ! g)"
      unfolding quantizedCDF_def at by (simp add: cdfOfGroup_hd cdfOfGroup_last)
  qed
  \<comment> \<open>compress\<close>
  have chk: "checkShape codes = Inr (n, m)"
  proof -
    have "codes ! 0 \<in> set codes" using ne by (cases codes) simp_all
    then have "cN (codes ! 0) = n" "cM (codes ! 0) = m" using shapes by simp_all
    then show ?thesis using ne n shapes by (simp add: checkShape_eq)
  qed
  have "\<forall>lvl \<in> set lvls. cN (fst lvl) = length (replicate n ([] :: bytes list))"
    using shapes by (auto simp: lvls_def dest: set_zip_leftD)
  from compressLoop_eq[OF this, of s1 m "[]" "[]"]
  have loop: "compressLoop s1 m lvls (replicate n []) [] [] =
              (map B [0..<n], map (\<lambda>lvl. cH (fst lvl)) lvls, map (\<lambda>lvl. cW (fst lvl)) lvls)"
    by (simp add: B_def cong: map_cong)
  have hs: "map (\<lambda>lvl. cH (fst lvl)) lvls = map cH codes"
    and ws: "map (\<lambda>lvl. cW (fst lvl)) lvls = map cW codes"
    by (rule nth_equalityI; simp add: lenlvls L_def lvl_nth)+
  have comp: "compress s codes = Inr ((map B [0..<n], replicate n cs), s1)"
    by (simp only: compress_def chk cd sum.case prod.case k1 lvls_def[symmetric] loop hs ws
        cs_def[symmetric])
  \<comment> \<open>decompress\<close>
  have item: "decodeItem s1 m (levelItems s1 cdfs (B i, cs) ! j) =
              (m, cH (codes ! j), cW (codes ! j), codePerImage (codes ! j) i)"
    if "i < n" "j < L" for i j
  proof -
    have "levelItems s1 cdfs (B i, cs) ! j =
          (encodeImage s1 m (lvls ! j) i, cdfs ! j, self_k s ! j, cH (codes ! j), cW (codes ! j))"
      using that(2) by (simp add: levelItems_def B_def cs_def k1 lenlvls lencdfs lenk L_def)
    moreover have "self_decoder s
        (self_encooder s (codePerImage (codes ! j) i)
           (groupIndexes (cM (codes ! j)) (cH (codes ! j)) (cW (codes ! j))) (cdfs ! j)
           (replicate (cM (codes ! j)) (self_k s ! j + 2))
           (replicate (cM (codes ! j) * cH (codes ! j) * cW (codes ! j)) 0))
        (groupIndexes (cM (codes ! j)) (cH (codes ! j)) (cW (codes ! j))) (cdfs ! j)
        (replicate (cM (codes ! j)) (self_k s ! j + 2))
        (replicate (cM (codes ! j) * cH (codes ! j) * cW (codes ! j)) 0) =
        codePerImage (codes ! j) i"
    proof (rule coder_roundtrip_image[OF lossless])
      show "wfCode (codes ! j)" using code[OF that(2)] by simp
      show "i < cN (codes ! j)" using code[OF that(2)] that(1) by simp
      show "cM (codes ! j) \<le> length (cdfs ! j)" using code[OF that(2)] cdfm[OF that(2)] by simp
      show "\<forall>g < cM (codes ! j). quantizedCDF (self_k s ! j + 2) (cdfs ! j ! g)"
        using code[OF that(2)] cdftab[OF that(2)] by simp
      show "\<forall>v \<in> set (cFlat (codes ! j)). 0 \<le> v \<and> v < int (self_k s ! j)"
        using range that(2) by (simp add: L_def)
    qed
    ultimately show ?thesis
      using code[OF that(2)] that(2)
      by (simp add: decodeItem_def encodeImage_def lvl_nth enc1 dec1)
  qed
  have lenitems: "length (levelItems s1 cdfs (B i, cs)) = L" for i
    by (simp add: levelItems_def B_def cs_def k1 lenlvls lencdfs lenk L_def)
  have okitems: "\<forall>it \<in> set (levelItems s1 cdfs (B i, cs)). restoredOk s1 m it" if "i < n" for i
  proof
    fix it assume "it \<in> set (levelItems s1 cdfs (B i, cs))"
    then obtain j where j: "j < L" "it = levelItems s1 cdfs (B i, cs) ! j"
      using lenitems by (auto simp: in_set_conv_nth)
    have "length (codePerImage (codes ! j) i) = m * cH (codes ! j) * cW (codes ! j)"
      using length_codePerImage[of "codes ! j" i] code[OF j(1)] that by simp
    then show "restoredOk s1 m it"
      unfolding restoredOk_def j(2) item[OF that j(1)] by simp
  qed
  define imgs where "imgs = map (\<lambda>i. (B i, cs)) [0..<n]"
  have zipimgs: "zip (map B [0..<n]) (replicate n cs) = imgs"
    by (rule nth_equalityI) (simp_all add: imgs_def)
  have "\<forall>img \<in> set imgs. cs_m (snd img) = m \<and> length (levelItems s1 cdfs img) = L \<and>
            (\<forall>it \<in> set (levelItems s1 cdfs img). restoredOk s1 m it)"
    using lenitems okitems by (auto simp: imgs_def cs_def)
  from decompressImages_eq[OF cd1 this, of "replicate L []"]
  have dimg: "decompressImages s1 m imgs (replicate L []) =
        Inr (map (\<lambda>j. replicate L [] ! j @
                    map (\<lambda>img. decodeItem s1 m (levelItems s1 cdfs img ! j)) imgs) [0..<L], s1)"
    by simp
  have acc: "map (\<lambda>j. replicate L [] ! j @
                    map (\<lambda>img. decodeItem s1 m (levelItems s1 cdfs img ! j)) imgs) [0..<L] =
             map (\<lambda>j. map (\<lambda>i. (cM (codes ! j), cH (codes ! j), cW (codes ! j),
                                  codePerImage (codes ! j) i)) [0..<cN (codes ! j)]) [0..<L]"
  proof (rule map_cong[OF refl])
    fix j assume "j \<in> set [0..<L]"
    then have j: "j < L" by simp
    have "map (\<lambda>img. decodeItem s1 m (levelItems s1 cdfs img ! j)) imgs =
          map (\<lambda>i. (m, cH (codes ! j), cW (codes ! j), codePerImage (codes ! j) i)) [0..<n]"
      unfolding imgs_def map_map comp_def
      by (rule map_cong[OF refl]) (simp add: item j)
    then show "replicate L [] ! j @
            map (\<lambda>img. decodeItem s1 m (levelItems s1 cdfs img ! j)) imgs =
          map (\<lambda>i. (cM (codes ! j), cH (codes ! j), cW (codes ! j),
                     codePerImage (codes ! j) i)) [0..<cN (codes ! j)]"
      using j code[OF j] by simp
  qed
  have st: "mapE stack
              (map (\<lambda>j. map (\<lambda>i. (cM (codes ! j), cH (codes ! j), cW (codes ! j),
                                  codePerImage (codes ! j) i)) [0..<cN (codes ! j)]) [0..<L]) =
            Inr (map (\<lambda>j. codes ! j) [0..<L])"
  proof (rule mapE_map_Inr)
    fix j assume "j \<in> set [0..<L]"
    then have j: "j < L" by simp
    show "stack (map (\<lambda>i. (cM (codes ! j), cH (codes ! j), cW (codes ! j),
                           codePerImage (codes ! j) i)) [0..<cN (codes ! j)]) = Inr (codes ! j)"
      using code[OF j] n by (intro stack_images) simp_all
  qed
  have codes_eq: "map (\<lambda>j. codes ! j) [0..<L] = codes" by (simp add: L_def map_nth)
  have b0: "length (map B [0..<n] ! 0) = L" using n by (simp add: B_def lenlvls)
  have c0: "cs_m (replicate n cs ! 0) = m" using n by (simp add: cs_def)
  have l1: "\<not> length (map B [0..<n]) < 1" "\<not> length (replicate n cs) < 1" using n by simp_all
  have dec: "decompress s1 (map B [0..<n]) (replicate n cs) = Inr (codes, s1)"
    by (simp only: decompress_def l1 if_False Let_def b0 c0 zipimgs dimg acc st codes_eq
        sum.case prod.case)
  from comp dec show ?thesis by blast
qed


lemma exDecodeLoop_symbol:
  "exDecodeLoop (replicate n 1 @ 0 # rest) acc = int (acc + n) # exDecodeLoop rest 0"
  by (induction n arbitrary: acc) simp_all

lemma exDecodeLoop_encode:
  "\<forall>v \<in> set symbols. 0 \<le> v \<Longrightarrow>
   exDecodeLoop (concat (map (\<lambda>v. replicate (nat v) 1 @ [0]) symbols)) 0 = symbols"
  by (induction symbols) (simp_all add: exDecodeLoop_symbol)

lemma ex_lossless: "losslessCoder exEncode exDecode"
  unfolding losslessCoder_def validCoderInput_def exEncode_def exDecode_def
  by (auto intro!: exDecodeLoop_encode simp: in_set_conv_nth)

theorem compress_decompress_roundtrip_witness:
  "\<exists>binaries codeSizes s1.
     compress exCoder2 exCodes = Inr ((binaries, codeSizes), s1) \<and>
     decompress s1 binaries codeSizes = Inr (exCodes, s1)"
proof (rule compress_decompress_roundtrip)
  show "losslessCoder (self_encooder exCoder2) (self_decoder exCoder2)"
    using ex_lossless by (simp add: exCoder2_def EntropyCoder_init_def)
  show "coderInv exCoder2" unfolding exCoder2_def by (rule init_coderInv) simp
  show "\<forall>lvl \<in> set (self_freqEMA exCoder2). length lvl = 2"
    by (simp add: exCoder2_def EntropyCoder_init_def)
  show "exCodes \<noteq> []" by (simp add: exCodes_def)
  show "length exCodes = length (self_k exCoder2)"
    by (simp add: exCodes_def exCoder2_def EntropyCoder_init_def)
  show "\<forall>code \<in> set exCodes. wfCode code \<and> cN code = 1 \<and> cM code = 2"
    by (simp add: exCodes_def wfCode_def)
  show "(1::nat) \<le> 1" by simp
  show "\<forall>lv < length exCodes. \<forall>v \<in> set (cFlat (exCodes ! lv)).
          0 \<le> v \<and> v < int (self_k exCoder2 ! lv)"
    by (simp add: exCodes_def exCoder2_def EntropyCoder_init_def less_Suc_eq)
qed

subsection \<open>The invariant is kept by frequency updates\<close>

text \<open>
  The constructor establishes the invariant (\<open>init_coderInv\<close>).  An update with a decay
  in \<open>[0, 1)\<close>, that is \<open>0 < ema \<le> 1\<close>, and non-negative counts keeps it: every entry
  stays non-negative and every group keeps a positive total.
\<close>

lemma sum_list_map2_affine:
  "length a = length b \<Longrightarrow>
   sum_list (map2 (\<lambda>c p. d * c + e * p) a b) = d * sum_list a + e * sum_list (b :: real list)"
  by (induction a b rule: list_induct2) (simp_all add: algebra_simps)

lemma emaUpdate_levelKept:
  assumes sh: "sameShape t old" and d: "0 \<le> d" "d < 1"
    and nn: "\<forall>row \<in> set t. \<forall>x \<in> set row. 0 \<le> x"
  shows "levelKept old (emaUpdate d t old)"
proof -
  have l: "length t = length old" and r: "\<And>g. g < length old \<Longrightarrow> length (t ! g) = length (old ! g)"
    using sameShape_nth[OF sh] by simp_all
  have lu: "length (emaUpdate d t old) = length old" using l by (simp add: emaUpdate_def)
  have row: "emaUpdate d t old ! g = map2 (\<lambda>c p. d * c + (1 - d) * p) (t ! g) (old ! g)"
    if "g < length old" for g
    using that l by (simp add: emaUpdate_def)
  have shape: "map length (emaUpdate d t old) = map length old"
    by (rule nth_equalityI) (simp_all add: lu row r)
  have ok: "rowsOk (emaUpdate d t old)" if old: "rowsOk old"
    unfolding rowsOk_def
  proof (intro ballI conjI)
    fix nrow assume "nrow \<in> set (emaUpdate d t old)"
    then obtain g where g: "g < length old" and nrow: "nrow = emaUpdate d t old ! g"
      using lu by (auto simp: in_set_conv_nth)
    have "t ! g \<in> set t" using g l by simp
    then have trow: "\<forall>x \<in> set (t ! g). 0 \<le> x" using nn by blast
    have "old ! g \<in> set old" using g by simp
    then have orow: "\<forall>x \<in> set (old ! g). 0 \<le> x" "0 < sum_list (old ! g)"
      using old by (auto simp: rowsOk_def)
    have eq: "nrow = map2 (\<lambda>c p. d * c + (1 - d) * p) (t ! g) (old ! g)"
      using nrow row[OF g] by simp
    have "sum_list nrow = d * sum_list (t ! g) + (1 - d) * sum_list (old ! g)"
      unfolding eq using r[OF g] by (rule sum_list_map2_affine)
    moreover have "0 \<le> d * sum_list (t ! g)"
      using d(1) trow by (simp add: sum_list_nonneg)
    moreover have "0 < (1 - d) * sum_list (old ! g)" using d(2) orow(2) by simp
    ultimately show "0 < sum_list nrow" by linarith
    fix x assume "x \<in> set nrow"
    then obtain c p where cp: "(c, p) \<in> set (zip (t ! g) (old ! g))" "x = d * c + (1 - d) * p"
      unfolding eq by auto
    then have "c \<in> set (t ! g)" "p \<in> set (old ! g)"
      by (auto dest: set_zip_leftD set_zip_rightD)
    then show "0 \<le> x" using trow orow(1) d cp(2) by simp
  qed
  show ?thesis unfolding levelKept_def using shape ok by simp
qed


lemma levelKept_refl: "levelKept a a"
  by (simp add: levelKept_def)

lemma levelKept_trans: "levelKept a b \<Longrightarrow> levelKept b c \<Longrightarrow> levelKept a c"
  by (simp add: levelKept_def)

lemma forwardLoop_levelKept:
  "forwardLoop d lv xs ema = Inr ema' \<Longrightarrow> 0 \<le> d \<Longrightarrow> d < 1 \<Longrightarrow>
   \<forall>x \<in> set xs. \<forall>row \<in> set (all_reduce (sumDims (fst x)) (snd x)). \<forall>v \<in> set row. 0 \<le> v \<Longrightarrow>
   list_all2 levelKept ema ema'"
proof (induction d lv xs ema rule: forwardLoop.induct)
  case (1 decay lv freqEMA)
  then show ?case by (simp add: list_all2_refl levelKept_refl)
next
  case (2 decay lv code others rest freqEMA)
  let ?t = "all_reduce (sumDims code) others"
  let ?upd = "emaUpdate decay ?t (freqEMA ! lv)"
  let ?ema1 = "freqEMA[lv := ?upd]"
  from "2.prems"(1) have lvlt: "lv < length freqEMA" and sh: "sameShape ?t (freqEMA ! lv)"
    and rec: "forwardLoop decay (Suc lv) rest ?ema1 = Inr ema'"
    by (auto simp: Let_def split: if_splits)
  have nn: "\<forall>row \<in> set ?t. \<forall>v \<in> set row. 0 \<le> v" using "2.prems"(4) by simp
  have k: "levelKept (freqEMA ! lv) ?upd"
    using sh "2.prems"(2,3) nn by (rule emaUpdate_levelKept)
  have "list_all2 levelKept (freqEMA[lv := freqEMA ! lv]) ?ema1"
    by (rule list_all2_update_cong) (simp_all add: list_all2_refl levelKept_refl k)
  then have a: "list_all2 levelKept freqEMA ?ema1" by simp
  have rest: "\<forall>x \<in> set rest. \<forall>row \<in> set (all_reduce (sumDims (fst x)) (snd x)). \<forall>v \<in> set row. 0 \<le> v"
    using "2.prems"(4) by simp
  have b: "list_all2 levelKept ?ema1 ema'"
    using "2.IH"[OF refl _ _ rec "2.prems"(2,3) rest] lvlt sh by simp
  from a b show ?case
    by (rule list_all2_trans[rotated]) (rule levelKept_trans)
qed

lemma forward_coderInv:
  assumes inv: "coderInv s" and d: "0 \<le> self_decay s" "self_decay s < 1"
    and fw: "forward s oneHotCodes = Inr s'"
    and nn: "\<forall>x \<in> set oneHotCodes.
               \<forall>row \<in> set (all_reduce (sumDims (fst x)) (snd x)). \<forall>v \<in> set row. 0 \<le> v"
  shows "coderInv s'"
proof -
  from fw obtain ema' where loop: "forwardLoop (self_decay s) 0 oneHotCodes (self_freqEMA s) = Inr ema'"
    and s': "s' = s\<lparr>self_freqEMA := ema', self_needUpdate := True\<rparr>"
    by (auto simp: forward_def split: sum.splits)
  have all2: "list_all2 levelKept (self_freqEMA s) ema'"
    using loop d nn by (rule forwardLoop_levelKept)
  then have len: "length ema' = length (self_freqEMA s)" by (simp add: list_all2_lengthD)
  have lk: "length (self_freqEMA s) = length (self_k s)" using inv by (simp add: coderInv_def)
  have "length row = self_k s ! lv \<and> (\<forall>x \<in> set row. 0 \<le> x) \<and> 0 < sum_list row"
    if lv: "lv < length (self_k s)" and row: "row \<in> set (ema' ! lv)" for lv row
  proof -
    let ?old = "self_freqEMA s ! lv"
    have kept: "levelKept ?old (ema' ! lv)"
      using all2 lv lk by (simp add: list_all2_nthD)
    have old: "\<forall>r \<in> set ?old. length r = self_k s ! lv \<and> (\<forall>x \<in> set r. 0 \<le> x) \<and> 0 < sum_list r"
      using inv lv by (simp add: coderInv_def)
    then have "rowsOk ?old" by (simp add: rowsOk_def)
    with kept have ok: "rowsOk (ema' ! lv)" and shape: "map length (ema' ! lv) = map length ?old"
      by (simp_all add: levelKept_def)
    have "length row \<in> set (map length (ema' ! lv))" using row by simp
    then have "length row \<in> set (map length ?old)" using shape by simp
    then have "length row = self_k s ! lv" using old by auto
    with ok row show ?thesis by (simp add: rowsOk_def)
  qed
  then show ?thesis by (simp add: coderInv_def s' len lk)
qed

section \<open>Properties of the quantizers\<close>

subsection \<open>The order of decoding\<close>

lemma bindE_simps [simp]: "bindE (Inl e) f = Inl e" "bindE (Inr x) f = f x"
  by (simp_all add: bindE_def)

lemma UMGM_decodeLoop_append:
  "UMGM_decodeLoop (xs @ ys) former =
   bindE (UMGM_decodeLoop xs former) (\<lambda>f. UMGM_decodeLoop ys f)"
  by (induction xs arbitrary: former) (auto simp: bindE_def split: sum.splits)

lemma UMGM_decode_Cons:
  assumes "length decoders = length codes"
  shows "UMGM_decode (decoder # decoders) (code # codes) =
         bindE (UMGM_decode decoders codes)
           (\<lambda>formerLevel. bindE (quantizerDecoder_decode decoder code formerLevel)
              (\<lambda>restored. Inr (Some restored)))"
proof -
  have "zip (rev decoders @ [decoder]) (rev codes @ [code]) =
        zip (rev decoders) (rev codes) @ [(decoder, code)]"
    using assms by simp
  then show ?thesis
    by (simp add: UMGM_decode_def UMGM_decodeLoop_append)
qed

text \<open>
  Claim C9.  Decoding two levels starts with the last level: \<open>UMGMQuantizer.decode\<close>
  dequantizes the code of level 1 and passes it through the heads of level 1, then
  dequantizes the code of level 0 and adds the restored level 1 to it (through the side
  head) before the restore head of level 0.  \<open>ResidualBackwardQuantizer.decode\<close> does
  the same with its last module on the first code of its list, the code of the smallest
  latent.  With identity heads the result is the sum of the two dequantized levels.
\<close>

theorem decode_two_levels:
  assumes "qd_sideHead d0 = Some side0" and "qd_sideHead d1 = None"
  shows "UMGM_decode [d0, d1] [c0, c1] =
           bindE (deQuantization_decode (qd_dequantizer d1) c1) (\<lambda>q1.
           bindE (deQuantization_decode (qd_dequantizer d0) c0) (\<lambda>q0.
           bindE (tensorAdd (qd_dequantizationHead d0 q0)
                    (side0 (qd_restoreHead d1 (qd_dequantizationHead d1 q1))))
             (\<lambda>xHat. Inr (Some (qd_restoreHead d0 xHat)))))
         \<and>
         RB_decode [r0, r1] [dq0, dq1] [cA, cB] =
           bindE (deQuantization_decode dq1 cA) (\<lambda>qA.
           bindE (deQuantization_decode dq0 cB) (\<lambda>qB.
           bindE (tensorAdd qB (r1 qA)) (\<lambda>x. Inr (Some (r0 x)))))"
proof
  have 1: "UMGM_decode [d1] [c1] =
           bindE (deQuantization_decode (qd_dequantizer d1) c1)
             (\<lambda>q1. Inr (Some (qd_restoreHead d1 (qd_dequantizationHead d1 q1))))"
    using assms(2)
    by (simp add: UMGM_decode_def quantizerDecoder_decode_def bindE_def Let_def split: sum.splits)
  have "UMGM_decode [d0, d1] [c0, c1] =
        bindE (UMGM_decode [d1] [c1])
           (\<lambda>formerLevel. bindE (quantizerDecoder_decode d0 c0 formerLevel)
              (\<lambda>restored. Inr (Some restored)))"
    by (rule UMGM_decode_Cons) simp
  also have "\<dots> = bindE (deQuantization_decode (qd_dequantizer d1) c1) (\<lambda>q1.
           bindE (deQuantization_decode (qd_dequantizer d0) c0) (\<lambda>q0.
           bindE (tensorAdd (qd_dequantizationHead d0 q0)
                    (side0 (qd_restoreHead d1 (qd_dequantizationHead d1 q1))))
             (\<lambda>xHat. Inr (Some (qd_restoreHead d0 xHat)))))"
    unfolding 1 using assms(1)
    by (simp add: quantizerDecoder_decode_def bindE_def Let_def split: sum.splits)
  finally show "UMGM_decode [d0, d1] [c0, c1] =
           bindE (deQuantization_decode (qd_dequantizer d1) c1) (\<lambda>q1.
           bindE (deQuantization_decode (qd_dequantizer d0) c0) (\<lambda>q0.
           bindE (tensorAdd (qd_dequantizationHead d0 q0)
                    (side0 (qd_restoreHead d1 (qd_dequantizationHead d1 q1))))
             (\<lambda>xHat. Inr (Some (qd_restoreHead d0 xHat)))))" .
next
  show "RB_decode [r0, r1] [dq0, dq1] [cA, cB] =
           bindE (deQuantization_decode dq1 cA) (\<lambda>qA.
           bindE (deQuantization_decode dq0 cB) (\<lambda>qB.
           bindE (tensorAdd qB (r1 qA)) (\<lambda>x. Inr (Some (r0 x)))))"
    by (simp add: RB_decode_def bindE_def split: sum.splits)
qed

lemma ex_deq0:
  "deQuantization_decode exDeq0 exCode0 = Inr \<lparr>fN = 1, fC = 1, fH = 1, fW = 2, fFlat = [5, 2]\<rparr>"
  by (simp add: deQuantization_decode_def exDeq0_def exCode0_def codeAt_def torchIndex_def
      upt_rec eval_nat_numeral)

lemma ex_deq1:
  "deQuantization_decode exDeq1 exCode1 = Inr \<lparr>fN = 1, fC = 1, fH = 1, fW = 2, fFlat = [40, 10]\<rparr>"
  by (simp add: deQuantization_decode_def exDeq1_def exCode1_def codeAt_def torchIndex_def
      upt_rec eval_nat_numeral)

theorem decode_two_levels_witness:
  "UMGM_decode [exDec0, exDec1] [exCode0, exCode1] =
     Inr (Some \<lparr>fN = 1, fC = 1, fH = 1, fW = 2, fFlat = [45, 12]\<rparr>)"
proof -
  have h0: "qd_sideHead exDec0 = Some (\<lambda>t. t)" and h1: "qd_sideHead exDec1 = None"
    by (simp_all add: exDec0_def exDec1_def)
  have d: "qd_dequantizer exDec0 = exDeq0" "qd_dequantizer exDec1 = exDeq1"
    by (simp_all add: exDec0_def exDec1_def)
  show ?thesis
    unfolding decode_two_levels[OF h0 h1, THEN conjunct1] d ex_deq0 ex_deq1
    by (simp add: exDec0_def exDec1_def tensorAdd_def)
qed

subsection \<open>Reassignment: the drop policy\<close>

lemma argsortDesc_valid: "validArgsort argsortDesc"
proof -
  have "sorted_wrt (\<lambda>i j. xs ! j \<le> xs ! i) (argsortDesc xs)" for xs :: "real list"
  proof -
    have "sorted (map (\<lambda>i. - (xs ! i)) (argsortDesc xs))"
      unfolding argsortDesc_def by (rule sorted_sort_key)
    then show ?thesis by (simp add: sorted_map)
  qed
  then show ?thesis by (auto simp: validArgsort_def argsortDesc_def)
qed

lemma ex_argsort: "argsortDesc [1 / 10000000, 9999999 / 10000000] = [1, 0]"
  by (simp add: argsortDesc_def upt_rec)

lemma length_maskedAssign [simp]: "length (maskedAssign xs loc vals) = length xs"
  by (induction xs loc vals rule: maskedAssign.induct) simp_all

lemma maskedAssign_nth:
  "length loc = length xs \<Longrightarrow> countTrue loc \<le> length vals \<Longrightarrow> e < length xs \<Longrightarrow>
   maskedAssign xs loc vals ! e = (if loc ! e then vals ! countTrue (take e loc) else xs ! e)"
proof (induction xs loc vals arbitrary: e rule: maskedAssign.induct)
  case (4 x xs loc v vals)
  then show ?case by (cases e) (simp_all add: countTrue_def)
next
  case (5 x xs loc vals)
  then show ?case by (cases e) (simp_all add: countTrue_def)
qed (simp_all add: countTrue_def)




lemma countTrue_take_less:
  assumes "e < length loc" "loc ! e"
  shows "countTrue (take e loc) < countTrue loc"
proof -
  have "loc = take e loc @ loc ! e # drop (Suc e) loc"
    using assms(1) by (simp add: id_take_nth_drop)
  then have "countTrue loc = countTrue (take e loc) + countTrue (loc ! e # drop (Suc e) loc)"
    unfolding countTrue_def by (metis filter_append length_append)
  then show ?thesis using assms(2) by (simp add: countTrue_def)
qed




lemma validArgsort_length: "validArgsort argsort \<Longrightarrow> length (argsort xs) = length xs"
  unfolding validArgsort_def by (metis card_lessThan distinct_card)

lemma validArgsort_nth: "validArgsort argsort \<Longrightarrow> r < length xs \<Longrightarrow> argsort xs ! r < length xs"
  using validArgsort_length[of argsort xs] unfolding validArgsort_def
  by (metis lessThan_iff nth_mem)








subsection \<open>Reassignment: what changes and what is reported\<close>

lemma mapE_Inr_nth:
  "mapE f xs = Inr ys \<Longrightarrow> length ys = length xs \<and> (\<forall>i < length xs. f (xs ! i) = Inr (ys ! i))"
proof (induction xs arbitrary: ys)
  case Nil
  then show ?case by simp
next
  case (Cons x xs)
  then obtain y ys' where y: "f x = Inr y" and r: "mapE f xs = Inr ys'" and ys: "ys = y # ys'"
    by (auto split: sum.splits)
  from Cons.IH[OF r] show ?case using y ys by (auto simp: nth_Cons')
qed

lemma countTrue_le_length: "countTrue loc \<le> length loc"
  by (simp add: countTrue_def)

lemma reAssignLoc_props:
  assumes "reAssignLoc eps k perm fg = (fr, loc1, tot)"
  shows "length fr = length fg \<and> length loc1 = length fg \<and> tot = countTrue loc1 \<and>
         (\<forall>e < length fg. loc1 ! e \<longrightarrow> fg ! e < eps)"
proof (cases "k div 2 < countTrue (neverAssignedLoc eps fg)")
  case False
  with assms show ?thesis by (auto simp: reAssignLoc_def Let_def neverAssignedLoc_def)
next
  case True
  define never where "never = neverAssignedLoc eps fg"
  define mask where "mask = dropMask (countTrue never) k perm"
  have fr: "fr = maskedAssign fg never mask"
    and loc1: "loc1 = map (\<lambda>f. f < eps \<and> - eps < f) fr" and tot: "tot = countTrue loc1"
    using assms True by (auto simp: reAssignLoc_def Let_def never_def mask_def)
  have lnever: "length never = length fg" by (simp add: never_def neverAssignedLoc_def)
  have lmask: "countTrue never \<le> length mask" by (simp add: mask_def dropMask_def)
  have "fg ! e < eps" if "e < length fg" "loc1 ! e" for e
  proof (rule ccontr)
    assume n: "\<not> fg ! e < eps"
    then have "\<not> never ! e" using that(1) by (simp add: never_def neverAssignedLoc_def)
    then have "fr ! e = fg ! e"
      unfolding fr using maskedAssign_nth[OF lnever lmask that(1)] by simp
    with n that show False by (simp add: loc1 fr)
  qed
  then show ?thesis by (simp add: fr loc1 tot)
qed

lemma reAssignGroup_frame:
  assumes res: "reAssignGroup eps k perm argsort cbg fg = Inr new"
    and len: "length cbg = k" and va: "validArgsort argsort"
  shows "length new = k" and "\<forall>e < k. new ! e \<in> set cbg"
    and "\<forall>e < k. new ! e \<noteq> cbg ! e \<longrightarrow> fg ! e < eps"
proof -
  obtain fr loc1 tot where loc: "reAssignLoc eps k perm fg = (fr, loc1, tot)"
    by (metis prod_cases3)
  define vals where "vals = take tot (map (\<lambda>i. cbg ! i) (argsort fr))"
  from res have lfg: "length fg = k" and new: "new = maskedAssign cbg loc1 vals"
    by (auto simp: reAssignGroup_def loc Let_def vals_def split: if_splits)
  from reAssignLoc_props[OF loc] lfg
  have lfr: "length fr = k" and lloc: "length loc1 = k" and tot: "tot = countTrue loc1"
    and sub: "\<forall>e < k. loc1 ! e \<longrightarrow> fg ! e < eps"
    by simp_all
  have lsort: "length (argsort fr) = k" using validArgsort_length[OF va] lfr by simp
  have totk: "tot \<le> k" using tot lloc countTrue_le_length[of loc1] by simp
  have lvals: "length vals = tot" using totk lsort by (simp add: vals_def)
  show "length new = k" by (simp add: new len)
  have nth: "new ! e = (if loc1 ! e then vals ! countTrue (take e loc1) else cbg ! e)"
    if "e < k" for e
    unfolding new using that len lloc tot lvals by (intro maskedAssign_nth) simp_all
  show "\<forall>e < k. new ! e \<in> set cbg"
  proof (intro allI impI)
    fix e assume e: "e < k"
    show "new ! e \<in> set cbg"
    proof (cases "loc1 ! e")
      case False
      then show ?thesis using nth[OF e] e len by simp
    next
      case True
      have r: "countTrue (take e loc1) < tot"
        unfolding tot using e lloc True by (intro countTrue_take_less) simp_all
      then have "vals ! countTrue (take e loc1) = cbg ! (argsort fr ! countTrue (take e loc1))"
        using lsort totk by (simp add: vals_def)
      moreover have "argsort fr ! countTrue (take e loc1) < k"
        using validArgsort_nth[OF va, of "countTrue (take e loc1)" fr] r totk lfr by simp
      ultimately show ?thesis using nth[OF e] True len by simp
    qed
  qed
  show "\<forall>e < k. new ! e \<noteq> cbg ! e \<longrightarrow> fg ! e < eps"
    using nth sub by auto
qed


lemma reAssignCodebook_frame_level:
  assumes res: "reAssignCodebook eps rp argsort q freq = Inr (flags, q')"
    and wf: "wfQuantization q" and va: "validArgsort argsort"
  shows "wfQuantization q'" and "mq_m q' = mq_m q" and "mq_k q' = mq_k q" and "mq_d q' = mq_d q"
    and "\<forall>g < mq_m q. \<forall>e < mq_k q.
           mq_codebook q' ! g ! e \<noteq> mq_codebook q ! g ! e \<longrightarrow>
           g < length freq \<and> freq ! g ! e < eps"
    and "flags = concat (map2 (map2 moved) (mq_codebook q') (mq_codebook q))"
proof -
  define cb where "cb = mq_codebook q"
  define zs where "zs = zip [0..<length cb] (zip cb freq)"
  define G where "G = min (length cb) (length freq)"
  from res obtain groups where
    m: "mapE (\<lambda>(g, codebookGroup, freqGroup).
                reAssignGroup eps (mq_k q) (rp g) argsort codebookGroup freqGroup) zs = Inr groups"
    and fl: "flags = concat (map2 (map2 moved) (groups @ drop (length groups) cb) cb)"
    and q': "q' = q\<lparr>mq_codebook := groups @ drop (length groups) cb\<rparr>"
    by (auto simp: reAssignCodebook_def bindE_def Let_def cb_def zs_def split: sum.splits)
  have lzs: "length zs = G" by (simp add: zs_def G_def)
  from mapE_Inr_nth[OF m] lzs
  have lg: "length groups = G"
    and grp: "\<And>g. g < G \<Longrightarrow>
               reAssignGroup eps (mq_k q) (rp g) argsort (cb ! g) (freq ! g) = Inr (groups ! g)"
    by (simp_all add: zs_def G_def)
  have lcb: "length cb = mq_m q" and lgrp: "\<And>g. g < mq_m q \<Longrightarrow> length (cb ! g) = mq_k q"
    and lent: "\<And>g entry. g < mq_m q \<Longrightarrow> entry \<in> set (cb ! g) \<Longrightarrow> length entry = mq_d q"
    using wf by (auto simp: wfQuantization_def cb_def)
  have GM: "G \<le> mq_m q" using lcb by (simp add: G_def)
  define cb' where "cb' = groups @ drop (length groups) cb"
  have cbq': "mq_codebook q' = cb'" by (simp add: q' cb'_def)
  have lcb': "length cb' = mq_m q" using lg GM lcb by (simp add: cb'_def)
  have lo: "\<And>g. g < G \<Longrightarrow> cb' ! g = groups ! g" by (simp add: cb'_def lg nth_append)
  have hi: "\<And>g. G \<le> g \<Longrightarrow> g < mq_m q \<Longrightarrow> cb' ! g = cb ! g"
    using lcb by (simp add: cb'_def lg nth_append)
  have fr: "length (cb' ! g) = mq_k q \<and> (\<forall>e < mq_k q. cb' ! g ! e \<in> set (cb ! g)) \<and>
            (\<forall>e < mq_k q. cb' ! g ! e \<noteq> cb ! g ! e \<longrightarrow> g < length freq \<and> freq ! g ! e < eps)"
    if g: "g < mq_m q" for g
  proof (cases "g < G")
    case True
    have gl: "g < length freq" using True by (simp add: G_def)
    from reAssignGroup_frame[OF grp[OF True] lgrp[OF g] va] gl show ?thesis
      unfolding lo[OF True] by simp
  next
    case False
    then show ?thesis using hi[of g] g lgrp[OF g] by simp
  qed
  show "mq_m q' = mq_m q" "mq_k q' = mq_k q" "mq_d q' = mq_d q" by (simp_all add: q')
  show "wfQuantization q'"
    unfolding wfQuantization_def cbq'
  proof (intro conjI ballI)
    show "length cb' = mq_m q'" by (simp add: lcb' q')
  next
    fix grp' assume "grp' \<in> set cb'"
    then obtain g where g: "g < mq_m q" "grp' = cb' ! g"
      using lcb' by (auto simp: in_set_conv_nth)
    show "length grp' = mq_k q'" using fr[OF g(1)] g(2) by (simp add: q')
    fix entry assume "entry \<in> set grp'"
    then obtain e where e: "e < mq_k q" "entry = cb' ! g ! e"
      using fr[OF g(1)] g(2) by (auto simp: in_set_conv_nth)
    then have "entry \<in> set (cb ! g)" using fr[OF g(1)] by simp
    then show "length entry = mq_d q'" using lent[OF g(1)] by (simp add: q')
  qed
  show "\<forall>g < mq_m q. \<forall>e < mq_k q.
           mq_codebook q' ! g ! e \<noteq> mq_codebook q ! g ! e \<longrightarrow>
           g < length freq \<and> freq ! g ! e < eps"
    unfolding cbq' using fr by (simp add: cb_def)
  show "flags = concat (map2 (map2 moved) (mq_codebook q') (mq_codebook q))"
    unfolding cbq' by (simp add: fl cb'_def cb_def)
qed

text \<open>
  Claim C7, as amended.  When \<open>UMGMQuantizer.reAssignCodebook\<close> returns, every level
  still has a codebook of its shape \<open>(m, k, d)\<close>; an entry whose embedding is not
  exactly the one it had belongs to a group of the usage input and had a usage below
  \<open>eps\<close>; and the value returned is the share of the entries, over all levels, whose
  embedding moved by more than \<open>10^-4\<close> in squared Euclidean distance.
\<close>

theorem reAssignCodebook_frame:
  assumes res: "UMGM_reAssignCodebook eps randperm argsort coder quantizers = Inr (p, quantizers')"
    and va: "validArgsort argsort"
    and wf: "\<forall>q \<in> set quantizers. wfQuantization q"
    and lvls: "length (self_freqEMA coder) = length quantizers"
  shows "length quantizers' = length quantizers \<and>
         (\<forall>lv < length quantizers.
            wfQuantization (quantizers' ! lv) \<and> mq_m (quantizers' ! lv) = mq_m (quantizers ! lv) \<and>
            mq_k (quantizers' ! lv) = mq_k (quantizers ! lv) \<and>
            mq_d (quantizers' ! lv) = mq_d (quantizers ! lv)) \<and>
         (\<forall>lv < length quantizers. \<forall>g < mq_m (quantizers ! lv). \<forall>e < mq_k (quantizers ! lv).
            mq_codebook (quantizers' ! lv) ! g ! e \<noteq> mq_codebook (quantizers ! lv) ! g ! e \<longrightarrow>
            g < length (NormalizedFreq coder ! lv) \<and> NormalizedFreq coder ! lv ! g ! e < eps) \<and>
         p = fractionWhere moved (map mq_codebook quantizers') (map mq_codebook quantizers)"
proof -
  define L where "L = length quantizers"
  define freqs where "freqs = NormalizedFreq coder"
  define zs where "zs = zip [0..<length quantizers] (zip quantizers freqs)"
  have lfreqs: "length freqs = L" using lvls by (simp add: freqs_def NormalizedFreq_def L_def)
  have lzs: "length zs = L" by (simp add: zs_def lfreqs L_def)
  from res obtain results where
    m: "mapE (\<lambda>(lv, q, freq). reAssignCodebook eps (randperm lv) argsort q freq) zs = Inr results"
    and p: "p = meanFlags (concat (map fst results))"
    and qs': "quantizers' = map snd results @ drop (length results) quantizers"
    by (auto simp: UMGM_reAssignCodebook_def bindE_def zs_def freqs_def split: sum.splits)
  from mapE_Inr_nth[OF m] lzs
  have lr: "length results = L"
    and lev: "\<And>lv. lv < L \<Longrightarrow>
               reAssignCodebook eps (randperm lv) argsort (quantizers ! lv) (freqs ! lv) =
               Inr (results ! lv)"
    by (simp_all add: zs_def lfreqs L_def)
  have qs'eq: "quantizers' = map snd results" using lr by (simp add: qs' L_def)
  have lq': "length quantizers' = L" by (simp add: qs'eq lr)
  have lvl: "wfQuantization (quantizers' ! lv) \<and> mq_m (quantizers' ! lv) = mq_m (quantizers ! lv) \<and>
             mq_k (quantizers' ! lv) = mq_k (quantizers ! lv) \<and>
             mq_d (quantizers' ! lv) = mq_d (quantizers ! lv) \<and>
             (\<forall>g < mq_m (quantizers ! lv). \<forall>e < mq_k (quantizers ! lv).
                mq_codebook (quantizers' ! lv) ! g ! e \<noteq> mq_codebook (quantizers ! lv) ! g ! e \<longrightarrow>
                g < length (freqs ! lv) \<and> freqs ! lv ! g ! e < eps) \<and>
             fst (results ! lv) =
               concat (map2 (map2 moved) (mq_codebook (quantizers' ! lv))
                         (mq_codebook (quantizers ! lv)))"
    if lv: "lv < L" for lv
  proof -
    have r: "reAssignCodebook eps (randperm lv) argsort (quantizers ! lv) (freqs ! lv) =
             Inr (fst (results ! lv), quantizers' ! lv)"
      using lev[OF lv] lv lr by (simp add: qs'eq)
    have w: "wfQuantization (quantizers ! lv)" using wf lv by (simp add: L_def)
    from reAssignCodebook_frame_level[OF r w va] show ?thesis by simp
  qed
  have "concat (map fst results) =
        entryFlags moved (map mq_codebook quantizers') (map mq_codebook quantizers)"
  proof -
    have "map fst results =
          map2 (\<lambda>new old. concat (map2 (map2 moved) new old))
            (map mq_codebook quantizers') (map mq_codebook quantizers)"
      by (rule nth_equalityI) (simp_all add: lr lq' L_def[symmetric] lvl)
    then show ?thesis by (simp add: entryFlags_def)
  qed
  then have "p = fractionWhere moved (map mq_codebook quantizers') (map mq_codebook quantizers)"
    by (simp add: p fractionWhere_def)
  then show ?thesis
    using lq' lvl unfolding L_def[symmetric] freqs_def[symmetric] by simp
qed


lemma ex_NormalizedFreq:
  "NormalizedFreq exCoderR = [[[1 / 10000000, 9999999 / 10000000]]]"
  by (simp add: NormalizedFreq_def exCoderR_def)

lemma ex_reAssignGroup:
  "reAssignGroup exEps 2 [] argsortDesc [[0], [1 / 1000]] [1 / 10000000, 9999999 / 10000000] =
     Inr [[1 / 1000], [1 / 1000]]"
  by (simp add: reAssignGroup_def reAssignLoc_def Let_def neverAssignedLoc_def countTrue_def
      exEps_def ex_argsort)

lemma ex_reAssign:
  "UMGM_reAssignCodebook exEps (\<lambda>lv g. []) argsortDesc exCoderR [exQuantization] =
     Inr (0, [exQuantization'])"
  by (simp add: UMGM_reAssignCodebook_def ex_NormalizedFreq reAssignCodebook_def
      exQuantization_def exQuantization'_def ex_reAssignGroup bindE_def Let_def moved_def
      sqDist_def meanFlags_def countTrue_def power2_eq_square)

text \<open>
  Claim C7 as stated says that the value returned is the share of the entries whose value
  changed.  In the example the never-assigned entry 0 takes the embedding of entry 1,
  which lies \<open>10^-3\<close> away: one of the two entries has changed, and the value returned
  is 0, because the squared distance \<open>10^-6\<close> does not exceed \<open>10^-4\<close>.
\<close>

theorem reAssign_proportion_counterexample:
  "UMGM_reAssignCodebook exEps (\<lambda>lv g. []) argsortDesc exCoderR [exQuantization] =
     Inr (0, [exQuantization']) \<and>
   fractionWhere (\<lambda>new old. new \<noteq> old)
     (map mq_codebook [exQuantization']) (map mq_codebook [exQuantization]) = 1 / 2"
proof
  show "UMGM_reAssignCodebook exEps (\<lambda>lv g. []) argsortDesc exCoderR [exQuantization] =
          Inr (0, [exQuantization'])"
    by (rule ex_reAssign)
  show "fractionWhere (\<lambda>new old. new \<noteq> old)
          (map mq_codebook [exQuantization']) (map mq_codebook [exQuantization]) = 1 / 2"
    by (simp add: fractionWhere_def entryFlags_def meanFlags_def countTrue_def
        exQuantization_def exQuantization'_def)
qed

theorem reAssignCodebook_frame_witness:
  "length [exQuantization'] = length [exQuantization] \<and>
   wfQuantization ([exQuantization'] ! 0) \<and>
   mq_m ([exQuantization'] ! 0) = mq_m ([exQuantization] ! 0) \<and>
   mq_k ([exQuantization'] ! 0) = mq_k ([exQuantization] ! 0) \<and>
   mq_d ([exQuantization'] ! 0) = mq_d ([exQuantization] ! 0) \<and>
   NormalizedFreq exCoderR ! 0 ! 0 ! 0 < exEps \<and>
   0 = fractionWhere moved (map mq_codebook [exQuantization']) (map mq_codebook [exQuantization])"
proof -
  have wf: "\<forall>q \<in> set [exQuantization]. wfQuantization q"
    by (simp add: wfQuantization_def exQuantization_def)
  have lv: "length (self_freqEMA exCoderR) = length [exQuantization]"
    by (simp add: exCoderR_def)
  note t = reAssignCodebook_frame[OF ex_reAssign argsortDesc_valid wf lv]
  have ch: "mq_codebook ([exQuantization'] ! 0) ! 0 ! 0 \<noteq> mq_codebook ([exQuantization] ! 0) ! 0 ! 0"
    by (simp add: exQuantization_def exQuantization'_def)
  have i: "(0::nat) < length [exQuantization]" "(0::nat) < mq_m ([exQuantization] ! 0)"
    "(0::nat) < mq_k ([exQuantization] ! 0)"
    by (simp_all add: exQuantization_def)
  from t i ch show ?thesis by blast
qed

end
